theory Spec2Isabelle
  imports Main
begin

section \<open>Cluster summary aggregation (lib/kube.ts)\<close>

text \<open>
  The theory embeds \<^verbatim>\<open>makeClientForContext\<close>, \<^verbatim>\<open>execJson\<close>, \<^verbatim>\<open>pickSettledError\<close>
  and \<^verbatim>\<open>buildSummary\<close>. Everything outside the module is an explicit input: the
  kubeconfig on disk, the outcome of each of the thirteen client calls, the process
  spawned for \<^verbatim>\<open>kubectl\<close> and \<^verbatim>\<open>JSON.parse\<close>. An exception is a value \<open>Inl (Error msg)\<close>;
  the calls to the cluster and to \<^verbatim>\<open>kubectl\<close> are recorded in a trace returned next to
  the result.
\<close>

subsection \<open>Kubernetes objects as the client and kubectl deliver them\<close>

text \<open>
  The source reads the retrieved objects through optional chaining on \<^verbatim>\<open>any\<close>; one record
  with every field the source reads, each optional, stands for all kinds. Numbers are the
  integer replica counts. \<open>meta_labels\<close> and \<open>capacity\<close> list the own properties of the
  JavaScript object in the order \<^verbatim>\<open>Object.entries\<close> enumerates them.
\<close>

record object_meta =
  meta_name :: "string option"
  meta_namespace :: "string option"
  meta_labels :: "(string \<times> string) list option"

record node_condition =
  cond_type :: string
  cond_status :: string

record node_system_info =
  kubeletVersion :: "string option"
  osImage :: "string option"
  containerRuntimeVersion :: "string option"

record ingress_rule =
  host :: "string option"

record object_status =
  phase :: "string option"
  conditions :: "node_condition list option"
  nodeInfo :: "node_system_info option"
  capacity :: "(string \<times> string) list option"
  readyReplicas :: "int option"
  replicas :: "int option"

record object_spec =
  spec_type :: "string option"
  clusterIP :: "string option"
  rules :: "ingress_rule list option"
  storageClassName :: "string option"

record resource =
  metadata :: "object_meta option"
  status :: "object_status option"
  spec :: "object_spec option"

record version_info =
  gitVersion :: "string option"
  platform :: "string option"
  major :: "string option"
  minor :: "string option"

text \<open>A list object: \<^verbatim>\<open>{ items: [...] }\<close>, where \<^verbatim>\<open>items\<close> may be missing.\<close>

record listing =
  list_items :: "resource list option"

subsection \<open>Kubeconfig\<close>

record kube_context =
  ctx_name :: string
  ctx_cluster :: string
  ctx_user :: string
  ctx_namespace :: "string option"

record kube_cluster =
  cluster_name :: string
  cluster_server :: string

record kube_config =
  contexts :: "kube_context list"
  clusters :: "kube_cluster list"
  currentContext :: string
  config_path :: string

subsection \<open>Errors, settled promises, the outside world\<close>

datatype js_error = Error string

fun error_message :: "js_error \<Rightarrow> string" where
  "error_message (Error m) = m"

text \<open>
  The reason a client call rejects with is an error object of the client library (always
  truthy). \<open>response_body_json\<close> is the text \<^verbatim>\<open>JSON.stringify(reason.response.body)\<close> when
  \<^verbatim>\<open>reason.response.body\<close> is present and truthy, \<open>as_string\<close> is \<^verbatim>\<open>String(reason)\<close>.
\<close>

record rejection =
  response_body_json :: "string option"
  message :: "string option"
  as_string :: string

text \<open>
  What a client call resolves with: nothing (\<^verbatim>\<open>undefined\<close>), an object with a \<^verbatim>\<open>body\<close>
  property (possibly null), or the payload itself.
\<close>

datatype 'a response = NoValue | WithBody "'a option" | Bare 'a

datatype 'a settled = Fulfilled 'a | Rejected rejection

datatype collection =
  Nodes | Namespaces | Pods | Deployments | StatefulSets | DaemonSets | Services
  | Ingresses | StorageClasses | PersistentVolumes | PersistentVolumeClaims | CRDs

datatype kind = Version | Coll collection

record spawn_result =
  spawn_error :: "js_error option"
  exit_status :: "int option"
  stdout :: string
  stderr :: string

text \<open>
  The value \<^verbatim>\<open>JSON.parse\<close> returns. \<open>JsonNull\<close> is \<^verbatim>\<open>null\<close> (reading a property of it
  throws); every other value is seen by the source only through its properties
  \<^verbatim>\<open>serverVersion\<close> and \<^verbatim>\<open>items\<close>.
\<close>

record kubectl_output =
  serverVersion :: "version_info option"
  output_items :: "resource list option"

datatype json = JsonNull | JsonValue kubectl_output

record env =
  DEFAULT_KUBECONFIG :: string
  kubeconfig_file :: "kube_config option"
  getCode :: "version_info response settled"
  list_call :: "collection \<Rightarrow> listing response settled"
  spawnSync :: "string \<Rightarrow> string list \<Rightarrow> string \<Rightarrow> spawn_result"
  JSON_parse :: "string \<Rightarrow> js_error + json"

datatype call = Api kind | Exec string "string list"

subsection \<open>Strings and numbers of JavaScript\<close>

definition or_default :: "string option \<Rightarrow> string \<Rightarrow> string" where
  "or_default x d = (case x of None \<Rightarrow> d | Some s \<Rightarrow> if s \<noteq> [] then s else d)"

definition startsWith :: "string \<Rightarrow> string \<Rightarrow> bool" where
  "startsWith s p = (take (length p) s = p)"

fun split :: "char \<Rightarrow> string \<Rightarrow> string list" where
  "split sep [] = [[]]"
| "split sep (c # cs) =
     (if c = sep then [] # split sep cs
      else (case split sep cs of [] \<Rightarrow> [[c]] | w # ws \<Rightarrow> (c # w) # ws))"

fun join :: "string \<Rightarrow> string list \<Rightarrow> string" where
  "join sep [] = []"
| "join sep [x] = x"
| "join sep (x # y # ys) = x @ sep @ join sep (y # ys)"

definition digit_char :: "nat \<Rightarrow> char" where
  "digit_char d = ''0123456789'' ! d"

fun show_nat :: "nat \<Rightarrow> string" where
  "show_nat n = (if n < 10 then [digit_char n] else show_nat (n div 10) @ [digit_char (n mod 10)])"

declare show_nat.simps [simp del]

definition show_int :: "int \<Rightarrow> string" where
  "show_int i = (if i < 0 then CHR ''-'' # show_nat (nat (- i)) else show_nat (nat i))"

definition digit_value :: "char \<Rightarrow> int option" where
  "digit_value c = map_of
     [(CHR ''0'', 0), (CHR ''1'', 1), (CHR ''2'', 2), (CHR ''3'', 3), (CHR ''4'', 4),
      (CHR ''5'', 5), (CHR ''6'', 6), (CHR ''7'', 7), (CHR ''8'', 8), (CHR ''9'', 9)] c"

fun decimal_value :: "int \<Rightarrow> string \<Rightarrow> int option" where
  "decimal_value acc [] = Some acc"
| "decimal_value acc (c # cs) =
     (case digit_value c of None \<Rightarrow> None | Some d \<Rightarrow> decimal_value (10 * acc + d) cs)"

text \<open>
  An array index in the sense of ECMAScript: the canonical decimal form of an integer
  from 0 to \<open>2^32 - 2\<close>. Own properties with such keys are enumerated first, in ascending
  numeric order; the other string keys follow in the order of their creation.
\<close>

definition array_index :: "string \<Rightarrow> int option" where
  "array_index k =
     (if k = [] \<or> (hd k = CHR ''0'' \<and> k \<noteq> ''0'') then None
      else (case decimal_value 0 k of
              None \<Rightarrow> None
            | Some n \<Rightarrow> if n \<le> 4294967294 then Some n else None))"

subsection \<open>The summary\<close>

text \<open>
  A slot of the tally object \<^verbatim>\<open>podsByNs\<close> is declared a number; at run time it holds a
  number or a string (see \<open>increment\<close> below).
\<close>

datatype tally = Num int | Str string

record node_row =
  node_name :: string
  roles :: "string list"
  node_kubeletVersion :: string
  node_osImage :: "string option"
  containerRuntime :: "string option"
  cpu :: "string option"
  memory :: "string option"

record node_stats =
  nodes_total :: int
  nodes_ready :: int
  nodes_notReady :: int
  nodes_items :: "node_row list"

record namespace_stats =
  namespaces_total :: int
  topByPods :: "(string \<times> tally) list"

record workload_counts =
  workloads_deployments :: int
  workloads_statefulsets :: int
  workloads_daemonsets :: int
  workloads_pods :: int
  workloads_services :: int
  workloads_ingresses :: int

record storage_counts =
  storage_storageClasses :: int
  storage_persistentVolumes :: int
  storage_persistentVolumeClaims :: int

record pod_row =
  pod_name :: string
  pod_namespace :: string
  pod_phase :: "string option"

record deployment_row =
  deployment_name :: string
  deployment_namespace :: string
  deployment_ready :: string
  deployment_replicas :: int

record service_row =
  service_name :: string
  service_namespace :: string
  service_type :: "string option"
  service_clusterIP :: "string option"

record ingress_row =
  ingress_name :: string
  ingress_namespace :: string
  hosts :: "string list"

record pvc_row =
  pvc_name :: string
  pvc_namespace :: string
  pvc_status :: "string option"
  storageClass :: "string option"
  pvc_capacity :: "string option"

record detail_block =
  details_pods :: "pod_row list"
  details_deployments :: "deployment_row list"
  details_services :: "service_row list"
  details_ingresses :: "ingress_row list"
  details_pvcs :: "pvc_row list"

record cluster_summary =
  summary_context :: string
  summary_clusterServer :: "string option"
  summary_user :: "string option"
  summary_namespace :: "string option"
  summary_version :: "version_info option"
  summary_nodes :: node_stats
  summary_namespaces :: namespace_stats
  summary_workloads :: workload_counts
  summary_storage :: storage_counts
  summary_crds :: int
  summary_details :: "detail_block option"

subsection \<open>loadKubeConfig, makeClientForContext\<close>

text \<open>
  \<open>kubeconfig_file\<close> is \<open>None\<close> when the file is missing or empty. The client handles
  that \<^verbatim>\<open>makeClientForContext\<close> returns are the calls of \<open>env\<close>; the model returns the
  configuration with its current context.
\<close>

definition loadKubeConfig :: "env \<Rightarrow> js_error + kube_config" where
  "loadKubeConfig env =
     (let filePath = DEFAULT_KUBECONFIG env in
      case kubeconfig_file env of
        None \<Rightarrow> Inl (Error (''kubeconfig not found or empty at '' @ filePath))
      | Some kc \<Rightarrow> Inr (kc\<lparr>config_path := filePath\<rparr>))"

definition makeClientForContext :: "env \<Rightarrow> string option \<Rightarrow> js_error + kube_config" where
  "makeClientForContext env contextName =
     (case loadKubeConfig env of
        Inl e \<Rightarrow> Inl e
      | Inr kc \<Rightarrow>
          (case contextName of
             None \<Rightarrow> Inr kc
           | Some n \<Rightarrow>
               if n = [] then Inr kc
               else (case find (\<lambda>c. ctx_name c = n) (contexts kc) of
                       None \<Rightarrow> Inl (Error (''Context not found: '' @ n))
                     | Some ctx \<Rightarrow> Inr (kc\<lparr>currentContext := n\<rparr>))))"

definition getCurrentCluster :: "kube_config \<Rightarrow> kube_cluster option" where
  "getCurrentCluster kc =
     (case find (\<lambda>c. ctx_name c = currentContext kc) (contexts kc) of
        None \<Rightarrow> None
      | Some ctx \<Rightarrow> find (\<lambda>c. cluster_name c = ctx_cluster ctx) (clusters kc))"

subsection \<open>execJson\<close>

definition execJson :: "env \<Rightarrow> string \<Rightarrow> string list \<Rightarrow> string \<Rightarrow> js_error + json" where
  "execJson env cmd args kubeconfigPath =
     (let res = spawnSync env cmd args kubeconfigPath in
      case spawn_error res of
        Some e \<Rightarrow> Inl e
      | None \<Rightarrow>
          if exit_status res \<noteq> Some 0 then
            (let msg =
               (if stderr res \<noteq> [] then stderr res
                else if stdout res \<noteq> [] then stdout res
                else ''exit '' @ (case exit_status res of None \<Rightarrow> ''null'' | Some n \<Rightarrow> show_int n))
             in Inl (Error (cmd @ '' '' @ join '' '' args @ '' failed: '' @ msg)))
          else JSON_parse env (if stdout res \<noteq> [] then stdout res else ''{}''))"

subsection \<open>Settled results\<close>

fun pickSettledError :: "rejection option list \<Rightarrow> rejection option" where
  "pickSettledError [] = None"
| "pickSettledError (r # results) =
     (case r of Some reason \<Rightarrow> Some reason | None \<Rightarrow> pickSettledError results)"

text \<open>The reason of a settled result whose status is \<^verbatim>\<open>rejected\<close>.\<close>

definition rejected :: "'a settled \<Rightarrow> rejection option" where
  "rejected p = (case p of Fulfilled v \<Rightarrow> None | Rejected reason \<Rightarrow> Some reason)"

definition toOk :: "'a settled \<Rightarrow> 'a option" where
  "toOk p = (case p of Fulfilled v \<Rightarrow> Some v | Rejected reason \<Rightarrow> None)"

definition unwrap :: "'a response option \<Rightarrow> 'a option" where
  "unwrap x = (case x of None \<Rightarrow> None | Some NoValue \<Rightarrow> None | Some (WithBody b) \<Rightarrow> b | Some (Bare a) \<Rightarrow> Some a)"

text \<open>\<^verbatim>\<open>x?.items ?? []\<close>\<close>

definition items_or_empty :: "listing option \<Rightarrow> resource list" where
  "items_or_empty x = (case x of None \<Rightarrow> [] | Some l \<Rightarrow> (case list_items l of None \<Rightarrow> [] | Some xs \<Rightarrow> xs))"

text \<open>
  The thirteen promises handed to \<^verbatim>\<open>Promise.allSettled\<close>; the ingress call carries a
  \<^verbatim>\<open>catch\<close> that turns a rejection into an empty list.
\<close>

definition versionResp :: "env \<Rightarrow> version_info response settled" where
  "versionResp env = getCode env"

definition listResp :: "env \<Rightarrow> collection \<Rightarrow> listing response settled" where
  "listResp env c =
     (if c = Ingresses then
        (case list_call env Ingresses of
           Rejected reason \<Rightarrow> Fulfilled (WithBody (Some \<lparr>list_items = Some []\<rparr>))
         | Fulfilled v \<Rightarrow> Fulfilled v)
      else list_call env c)"

definition all_collections :: "collection list" where
  "all_collections =
     [Nodes, Namespaces, Pods, Deployments, StatefulSets, DaemonSets, Services, Ingresses,
      StorageClasses, PersistentVolumes, PersistentVolumeClaims, CRDs]"

definition all_kinds :: "kind list" where
  "all_kinds = Version # map Coll all_collections"

definition error_body :: "rejection \<Rightarrow> string" where
  "error_body criticalErr =
     (let rest = or_default (message criticalErr) (as_string criticalErr) in
      case response_body_json criticalErr of
        None \<Rightarrow> rest
      | Some s \<Rightarrow> if s \<noteq> [] then s else rest)"

subsection \<open>Fallbacks via kubectl\<close>

definition kubectl_args :: "kind \<Rightarrow> string list" where
  "kubectl_args k =
     (case k of
        Version \<Rightarrow> [''version'', ''-o'', ''json'']
      | Coll Nodes \<Rightarrow> [''get'', ''nodes'', ''-o'', ''json'']
      | Coll Namespaces \<Rightarrow> [''get'', ''namespaces'', ''-o'', ''json'']
      | Coll Pods \<Rightarrow> [''get'', ''pods'', ''--all-namespaces'', ''-o'', ''json'']
      | Coll Deployments \<Rightarrow> [''get'', ''deployments'', ''--all-namespaces'', ''-o'', ''json'']
      | Coll StatefulSets \<Rightarrow> [''get'', ''statefulsets'', ''--all-namespaces'', ''-o'', ''json'']
      | Coll DaemonSets \<Rightarrow> [''get'', ''daemonsets'', ''--all-namespaces'', ''-o'', ''json'']
      | Coll Services \<Rightarrow> [''get'', ''services'', ''--all-namespaces'', ''-o'', ''json'']
      | Coll Ingresses \<Rightarrow> [''get'', ''ingresses'', ''--all-namespaces'', ''-o'', ''json'']
      | Coll StorageClasses \<Rightarrow> [''get'', ''storageclass'', ''-o'', ''json'']
      | Coll PersistentVolumes \<Rightarrow> [''get'', ''pv'', ''-o'', ''json'']
      | Coll PersistentVolumeClaims \<Rightarrow> [''get'', ''pvc'', ''--all-namespaces'', ''-o'', ''json'']
      | Coll CRDs \<Rightarrow> [''get'', ''crd'', ''-o'', ''json''])"

definition fallback_call :: "kind \<Rightarrow> call" where
  "fallback_call k = Exec ''kubectl'' (kubectl_args k)"

text \<open>
  \<^verbatim>\<open>try { if (!ver) { const j = execJson(...); ver = j.serverVersion || undefined; } } catch {}\<close>
  The second component is the trace of the block.
\<close>

definition fallback_version :: "env \<Rightarrow> string \<Rightarrow> version_info option \<Rightarrow> version_info option \<times> call list" where
  "fallback_version env kubePath ver =
     (case ver of
        Some v \<Rightarrow> (ver, [])
      | None \<Rightarrow>
          (case execJson env ''kubectl'' (kubectl_args Version) kubePath of
             Inl e \<Rightarrow> (ver, [fallback_call Version])
           | Inr JsonNull \<Rightarrow> (ver, [fallback_call Version])
           | Inr (JsonValue j) \<Rightarrow> (serverVersion j, [fallback_call Version])))"

text \<open>
  \<^verbatim>\<open>try { if (xs.length === 0) { const j = execJson(...); xs = j.items || []; } } catch {}\<close>
\<close>

definition fallback_items :: "env \<Rightarrow> string \<Rightarrow> collection \<Rightarrow> resource list \<Rightarrow> resource list \<times> call list" where
  "fallback_items env kubePath c xs =
     (if length xs = 0 then
        (case execJson env ''kubectl'' (kubectl_args (Coll c)) kubePath of
           Inl e \<Rightarrow> (xs, [fallback_call (Coll c)])
         | Inr JsonNull \<Rightarrow> (xs, [fallback_call (Coll c)])
         | Inr (JsonValue j) \<Rightarrow>
             ((case output_items j of None \<Rightarrow> [] | Some ys \<Rightarrow> ys), [fallback_call (Coll c)]))
      else (xs, []))"

definition primary_version :: "env \<Rightarrow> version_info option" where
  "primary_version env = unwrap (toOk (versionResp env))"

definition primary_items :: "env \<Rightarrow> collection \<Rightarrow> resource list" where
  "primary_items env c = items_or_empty (unwrap (toOk (listResp env c)))"

subsection \<open>Node table and counts\<close>

definition metadata_name :: "resource \<Rightarrow> string option" where
  "metadata_name r = Option.bind (metadata r) meta_name"

definition metadata_namespace :: "resource \<Rightarrow> string option" where
  "metadata_namespace r = Option.bind (metadata r) meta_namespace"

definition status_nodeInfo :: "resource \<Rightarrow> node_system_info option" where
  "status_nodeInfo r = Option.bind (status r) nodeInfo"

definition status_capacity :: "resource \<Rightarrow> string \<Rightarrow> string option" where
  "status_capacity r k = Option.bind (Option.bind (status r) capacity) (\<lambda>c. map_of c k)"

definition role_of_key :: "string \<Rightarrow> string" where
  "role_of_key k =
     (case split CHR ''/'' k of
        a # seg # rest \<Rightarrow> if seg \<noteq> [] then seg else ''role''
      | _ \<Rightarrow> ''role'')"

definition node_roles :: "resource \<Rightarrow> string list" where
  "node_roles n =
     map (\<lambda>(k, v). role_of_key k)
       (filter (\<lambda>(k, v). startsWith k ''node-role.kubernetes.io'')
          (case Option.bind (metadata n) meta_labels of None \<Rightarrow> [] | Some ls \<Rightarrow> ls))"

definition nodeItem :: "resource \<Rightarrow> node_row" where
  "nodeItem n =
     \<lparr> node_name = or_default (metadata_name n) ''unknown'',
       roles = node_roles n,
       node_kubeletVersion = or_default (Option.bind (status_nodeInfo n) kubeletVersion) ''unknown'',
       node_osImage = Option.bind (status_nodeInfo n) osImage,
       containerRuntime = Option.bind (status_nodeInfo n) containerRuntimeVersion,
       cpu = status_capacity n ''cpu'',
       memory = status_capacity n ''memory'' \<rparr>"

definition is_ready :: "resource \<Rightarrow> bool" where
  "is_ready n =
     list_ex (\<lambda>c. cond_type c = ''Ready'' \<and> cond_status c = ''True'')
       (case Option.bind (status n) conditions of None \<Rightarrow> [] | Some cs \<Rightarrow> cs)"

definition readyCount :: "resource list \<Rightarrow> int" where
  "readyCount nodes = int (length (filter is_ready nodes))"

subsection \<open>Pods per namespace\<close>

text \<open>
  \<^verbatim>\<open>podsByNs\<close> is an ordinary object: the list of its own properties in the order
  \<^verbatim>\<open>Object.entries\<close> enumerates them (array-index keys ascending, then the other keys in
  creation order), on top of the properties it inherits from \<^verbatim>\<open>Object.prototype\<close>.

  \<open>prototype_text k\<close> is the string that the inherited property \<open>k\<close> converts to when
  \<^verbatim>\<open>+ 1\<close> is applied to it: the source text of a built-in function, or
  \<^verbatim>\<open>[object Object]\<close> for \<^verbatim>\<open>__proto__\<close> (which reads \<^verbatim>\<open>Object.prototype\<close> itself).
\<close>

definition function_text :: "string \<Rightarrow> string" where
  "function_text f = ''function '' @ f @ ''() { [native code] }''"

definition prototype_text :: "string \<Rightarrow> string option" where
  "prototype_text k =
     (if k = ''constructor'' then Some (function_text ''Object'')
      else if k \<in> set [''__defineGetter__'', ''__defineSetter__'', ''hasOwnProperty'',
                        ''__lookupGetter__'', ''__lookupSetter__'', ''isPrototypeOf'',
                        ''propertyIsEnumerable'', ''toString'', ''valueOf'', ''toLocaleString'']
      then Some (function_text k)
      else if k = ''__proto__'' then Some ''[object Object]''
      else None)"

text \<open>\<^verbatim>\<open>(podsByNs[ns] || 0) + 1\<close>\<close>

definition increment :: "(string \<times> tally) list \<Rightarrow> string \<Rightarrow> tally" where
  "increment podsByNs ns =
     (case map_of podsByNs ns of
        Some (Num n) \<Rightarrow> if n \<noteq> 0 then Num (n + 1) else Num (0 + 1)
      | Some (Str s) \<Rightarrow> if s \<noteq> [] then Str (s @ ''1'') else Num (0 + 1)
      | None \<Rightarrow>
          (case prototype_text ns of
             Some t \<Rightarrow> Str (t @ ''1'')
           | None \<Rightarrow> Num (0 + 1)))"

text \<open>
  Creating an own property with an array-index key: it goes after the array-index keys
  below it and before everything else.
\<close>

fun insert_indexed :: "int \<Rightarrow> string \<Rightarrow> 'v \<Rightarrow> (string \<times> 'v) list \<Rightarrow> (string \<times> 'v) list" where
  "insert_indexed i k v [] = [(k, v)]"
| "insert_indexed i k v ((k', v') # rest) =
     (case array_index k' of
        Some j \<Rightarrow> if j < i then (k', v') # insert_indexed i k v rest
                  else (k, v) # (k', v') # rest
      | None \<Rightarrow> (k, v) # (k', v') # rest)"

text \<open>
  \<^verbatim>\<open>obj[k] = v\<close> for a primitive \<open>v\<close>. Assigning to \<^verbatim>\<open>__proto__\<close> runs the setter of
  \<^verbatim>\<open>Object.prototype\<close>, which ignores a value that is neither an object nor null. An
  existing own property keeps its place.
\<close>

definition set_property :: "string \<Rightarrow> 'v \<Rightarrow> (string \<times> 'v) list \<Rightarrow> (string \<times> 'v) list" where
  "set_property k v obj =
     (if k = ''__proto__'' then obj
      else if k \<in> fst ` set obj then map (\<lambda>(k', v'). if k' = k then (k', v) else (k', v')) obj
      else (case array_index k of
              None \<Rightarrow> obj @ [(k, v)]
            | Some i \<Rightarrow> insert_indexed i k v obj))"

definition pod_ns :: "resource \<Rightarrow> string" where
  "pod_ns p = or_default (metadata_namespace p) ''default''"

definition tally_pod :: "resource \<Rightarrow> (string \<times> tally) list \<Rightarrow> (string \<times> tally) list" where
  "tally_pod p podsByNs = (let ns = pod_ns p in set_property ns (increment podsByNs ns) podsByNs)"

definition tally_pods :: "resource list \<Rightarrow> (string \<times> tally) list" where
  "tally_pods pods = fold tally_pod pods []"

text \<open>
  The comparator \<^verbatim>\<open>(a, b) => b[1] - a[1]\<close>. \<open>None\<close> is \<^verbatim>\<open>NaN\<close>: a string in a slot is
  never a numeric literal (it starts with \<^verbatim>\<open>function\<close> or \<^verbatim>\<open>[object\<close>).
\<close>

definition by_pods_desc :: "string \<times> tally \<Rightarrow> string \<times> tally \<Rightarrow> int option" where
  "by_pods_desc a b = (case (snd b, snd a) of (Num y, Num x) \<Rightarrow> Some (y - x) | _ \<Rightarrow> None)"

text \<open>
  \<^verbatim>\<open>Array.prototype.sort\<close>: a stable sort; a comparator result of \<^verbatim>\<open>NaN\<close> counts as 0.
  For a comparator that is a consistent ordering every stable sort returns the same
  list, here by insertion from the right. (For an inconsistent comparator ECMAScript
  leaves the order to the implementation.)
\<close>

fun sort_insert :: "('a \<Rightarrow> 'a \<Rightarrow> int option) \<Rightarrow> 'a \<Rightarrow> 'a list \<Rightarrow> 'a list" where
  "sort_insert cmp x [] = [x]"
| "sort_insert cmp x (y # ys) =
     (if (case cmp x y of None \<Rightarrow> 0 | Some d \<Rightarrow> d) \<le> 0 then x # y # ys
      else y # sort_insert cmp x ys)"

fun array_sort :: "('a \<Rightarrow> 'a \<Rightarrow> int option) \<Rightarrow> 'a list \<Rightarrow> 'a list" where
  "array_sort cmp [] = []"
| "array_sort cmp (x # xs) = sort_insert cmp x (array_sort cmp xs)"

definition topByPods_of :: "resource list \<Rightarrow> (string \<times> tally) list" where
  "topByPods_of pods =
     map (\<lambda>(ns, count). (ns, count)) (take 10 (array_sort by_pods_desc (tally_pods pods)))"

subsection \<open>Detail rows\<close>

definition pod_detail :: "resource \<Rightarrow> pod_row" where
  "pod_detail p =
     \<lparr> pod_name = or_default (metadata_name p) ''unknown'',
       pod_namespace = or_default (metadata_namespace p) ''default'',
       pod_phase = Option.bind (status p) phase \<rparr>"

text \<open>\<^verbatim>\<open>x ?? 0\<close>\<close>

definition or_zero :: "int option \<Rightarrow> int" where
  "or_zero x = (case x of None \<Rightarrow> 0 | Some n \<Rightarrow> n)"

definition deployment_detail :: "resource \<Rightarrow> deployment_row" where
  "deployment_detail d =
     \<lparr> deployment_name = or_default (metadata_name d) ''unknown'',
       deployment_namespace = or_default (metadata_namespace d) ''default'',
       deployment_ready =
         show_int (or_zero (Option.bind (status d) readyReplicas)) @ ''/''
           @ show_int (or_zero (Option.bind (status d) replicas)),
       deployment_replicas = or_zero (Option.bind (status d) replicas) \<rparr>"

definition service_detail :: "resource \<Rightarrow> service_row" where
  "service_detail s =
     \<lparr> service_name = or_default (metadata_name s) ''unknown'',
       service_namespace = or_default (metadata_namespace s) ''default'',
       service_type = Option.bind (spec s) spec_type,
       service_clusterIP = Option.bind (spec s) clusterIP \<rparr>"

definition ingress_hosts :: "resource \<Rightarrow> string list" where
  "ingress_hosts i =
     map the (filter (\<lambda>h. case h of None \<Rightarrow> False | Some s \<Rightarrow> s \<noteq> [])
       (map host (case Option.bind (spec i) rules of None \<Rightarrow> [] | Some rs \<Rightarrow> rs)))"

definition ingress_detail :: "resource \<Rightarrow> ingress_row" where
  "ingress_detail i =
     \<lparr> ingress_name = or_default (metadata_name i) ''unknown'',
       ingress_namespace = or_default (metadata_namespace i) ''default'',
       hosts = ingress_hosts i \<rparr>"

definition pvc_detail :: "resource \<Rightarrow> pvc_row" where
  "pvc_detail c =
     \<lparr> pvc_name = or_default (metadata_name c) ''unknown'',
       pvc_namespace = or_default (metadata_namespace c) ''default'',
       pvc_status = Option.bind (status c) phase,
       storageClass = Option.bind (spec c) storageClassName,
       pvc_capacity = status_capacity c ''storage'' \<rparr>"

subsection \<open>buildSummary\<close>

text \<open>
  The value a kind has after the fallback pass, with the trace of its block. The blocks
  run in the order of \<open>all_kinds\<close>.
\<close>

definition resolved_version :: "env \<Rightarrow> string \<Rightarrow> version_info option \<times> call list" where
  "resolved_version env kubePath = fallback_version env kubePath (primary_version env)"

definition resolved_items :: "env \<Rightarrow> string \<Rightarrow> collection \<Rightarrow> resource list \<times> call list" where
  "resolved_items env kubePath c = fallback_items env kubePath c (primary_items env c)"

definition fallback_trace :: "env \<Rightarrow> string \<Rightarrow> call list" where
  "fallback_trace env kubePath =
     snd (resolved_version env kubePath)
       @ concat (map (\<lambda>c. snd (resolved_items env kubePath c)) all_collections)"

definition make_details :: "(collection \<Rightarrow> resource list) \<Rightarrow> detail_block" where
  "make_details final =
     \<lparr> details_pods = map pod_detail (take 500 (final Pods)),
       details_deployments = map deployment_detail (take 500 (final Deployments)),
       details_services = map service_detail (take 500 (final Services)),
       details_ingresses = map ingress_detail (take 500 (final Ingresses)),
       details_pvcs = map pvc_detail (take 500 (final PersistentVolumeClaims)) \<rparr>"

definition make_summary ::
  "kube_config \<Rightarrow> version_info option \<Rightarrow> (collection \<Rightarrow> resource list) \<Rightarrow> bool \<Rightarrow> cluster_summary" where
  "make_summary kc ver final detail =
     (let currentCtx = currentContext kc;
          cur = find (\<lambda>c. ctx_name c = currentCtx) (contexts kc);
          nodes = final Nodes;
          pods = final Pods
      in \<lparr> summary_context = currentCtx,
           summary_clusterServer = map_option cluster_server (getCurrentCluster kc),
           summary_user = map_option ctx_user cur,
           summary_namespace = Option.bind cur ctx_namespace,
           summary_version = ver,
           summary_nodes =
             \<lparr> nodes_total = int (length nodes),
               nodes_ready = readyCount nodes,
               nodes_notReady = max (int (length nodes) - readyCount nodes) 0,
               nodes_items = map nodeItem nodes \<rparr>,
           summary_namespaces =
             \<lparr> namespaces_total = int (length (final Namespaces)),
               topByPods = topByPods_of pods \<rparr>,
           summary_workloads =
             \<lparr> workloads_deployments = int (length (final Deployments)),
               workloads_statefulsets = int (length (final StatefulSets)),
               workloads_daemonsets = int (length (final DaemonSets)),
               workloads_pods = int (length pods),
               workloads_services = int (length (final Services)),
               workloads_ingresses = int (length (final Ingresses)) \<rparr>,
           summary_storage =
             \<lparr> storage_storageClasses = int (length (final StorageClasses)),
               storage_persistentVolumes = int (length (final PersistentVolumes)),
               storage_persistentVolumeClaims = int (length (final PersistentVolumeClaims)) \<rparr>,
           summary_crds = int (length (final CRDs)),
           summary_details = (if detail then Some (make_details final) else None) \<rparr>)"

text \<open>
  The result is the summary or the exception thrown; the trace lists the client calls
  issued for \<^verbatim>\<open>Promise.allSettled\<close> and then the \<^verbatim>\<open>kubectl\<close> processes spawned.
\<close>

definition buildSummary :: "env \<Rightarrow> string option \<Rightarrow> bool \<Rightarrow> (js_error + cluster_summary) \<times> call list" where
  "buildSummary env contextName detail =
     (case makeClientForContext env contextName of
        Inl e \<Rightarrow> (Inl e, [])
      | Inr kc \<Rightarrow>
          (let api_calls = map Api all_kinds in
           case pickSettledError [rejected (versionResp env), rejected (listResp env Nodes)] of
             Some criticalErr \<Rightarrow>
               (Inl (Error (''Cluster API request failed: '' @ error_body criticalErr)), api_calls)
           | None \<Rightarrow>
               (let kubePath = config_path kc;
                    ver = fst (resolved_version env kubePath);
                    final = (\<lambda>c. fst (resolved_items env kubePath c))
                in (Inr (make_summary kc ver final detail),
                    api_calls @ fallback_trace env kubePath))))"

subsection \<open>Vocabulary of the properties\<close>

text \<open>
  What was retrieved for a kind: its value after the fallback pass. The path handed to
  \<^verbatim>\<open>kubectl\<close> is the one the kubeconfig was loaded from.
\<close>

definition retrieved_version :: "env \<Rightarrow> version_info option" where
  "retrieved_version env = fst (resolved_version env (DEFAULT_KUBECONFIG env))"

definition retrieved :: "env \<Rightarrow> collection \<Rightarrow> resource list" where
  "retrieved env c = fst (resolved_items env (DEFAULT_KUBECONFIG env) c)"

definition node_conditions :: "resource \<Rightarrow> node_condition list" where
  "node_conditions n = (case Option.bind (status n) conditions of None \<Rightarrow> [] | Some cs \<Rightarrow> cs)"

definition label_keys :: "resource \<Rightarrow> string list" where
  "label_keys n = (case Option.bind (metadata n) meta_labels of None \<Rightarrow> [] | Some ls \<Rightarrow> map fst ls)"

text \<open>The count the summary reports for a collection.\<close>

definition collection_count :: "cluster_summary \<Rightarrow> collection \<Rightarrow> int" where
  "collection_count s c =
     (case c of
        Nodes \<Rightarrow> nodes_total (summary_nodes s)
      | Namespaces \<Rightarrow> namespaces_total (summary_namespaces s)
      | Pods \<Rightarrow> workloads_pods (summary_workloads s)
      | Deployments \<Rightarrow> workloads_deployments (summary_workloads s)
      | StatefulSets \<Rightarrow> workloads_statefulsets (summary_workloads s)
      | DaemonSets \<Rightarrow> workloads_daemonsets (summary_workloads s)
      | Services \<Rightarrow> workloads_services (summary_workloads s)
      | Ingresses \<Rightarrow> workloads_ingresses (summary_workloads s)
      | StorageClasses \<Rightarrow> storage_storageClasses (summary_storage s)
      | PersistentVolumes \<Rightarrow> storage_persistentVolumes (summary_storage s)
      | PersistentVolumeClaims \<Rightarrow> storage_persistentVolumeClaims (summary_storage s)
      | CRDs \<Rightarrow> summary_crds s)"

text \<open>
  The primary result of a kind is empty: no version object, or an empty item list.
\<close>

definition primary_empty :: "env \<Rightarrow> kind \<Rightarrow> bool" where
  "primary_empty env k =
     (case k of Version \<Rightarrow> primary_version env = None | Coll c \<Rightarrow> primary_items env c = [])"

text \<open>
  The fallback of a kind fails: \<^verbatim>\<open>execJson\<close> throws, or it returns \<^verbatim>\<open>null\<close> and reading the
  property of the result throws.
\<close>

definition kubectl_fails :: "env \<Rightarrow> kind \<Rightarrow> bool" where
  "kubectl_fails env k =
     (case execJson env ''kubectl'' (kubectl_args k) (DEFAULT_KUBECONFIG env) of
        Inl e \<Rightarrow> True
      | Inr JsonNull \<Rightarrow> True
      | Inr (JsonValue j) \<Rightarrow> False)"

text \<open>
  The order in which \<^verbatim>\<open>Object.entries\<close> enumerates the namespaces tallied from a list of
  namespace names: array-index names by ascending value, then the other names by first
  occurrence.
\<close>

definition first_position :: "string list \<Rightarrow> string \<Rightarrow> nat" where
  "first_position names a = length (takeWhile (\<lambda>x. x \<noteq> a) names)"

definition enumerated_before :: "string list \<Rightarrow> string \<Rightarrow> string \<Rightarrow> bool" where
  "enumerated_before names a b =
     (case (array_index a, array_index b) of
        (Some i, Some j) \<Rightarrow> i < j
      | (Some i, None) \<Rightarrow> True
      | (None, Some j) \<Rightarrow> False
      | (None, None) \<Rightarrow> first_position names a < first_position names b)"

text \<open>No pod sits in a namespace named like a property of \<^verbatim>\<open>Object.prototype\<close>.\<close>

definition plain_namespaces :: "resource list \<Rightarrow> bool" where
  "plain_namespaces pods = list_all (\<lambda>p. prototype_text (pod_ns p) = None) pods"

text \<open>
  The tally object after the namespace names \<open>names\<close> were counted, none of them a
  property name of \<^verbatim>\<open>Object.prototype\<close>: one own property per name, in enumeration order,
  holding the number of occurrences.
\<close>

definition tallied :: "string list \<Rightarrow> (string \<times> tally) list \<Rightarrow> bool" where
  "tallied names obj \<longleftrightarrow>
     distinct (map fst obj) \<and> fst ` set obj = set names
     \<and> sorted_wrt (enumerated_before names) (map fst obj)
     \<and> (\<forall>k \<in> set names. map_of obj k = Some (Num (int (count_list names k))))"

text \<open>The number a slot contributes to a sum of pod counts.\<close>

definition listed_pods :: "tally \<Rightarrow> int" where
  "listed_pods t = (case t of Num n \<Rightarrow> n | Str s \<Rightarrow> 0)"

subsection \<open>Sample inputs\<close>

definition sample_config :: kube_config where
  "sample_config =
     \<lparr> contexts = [\<lparr> ctx_name = ''dev'', ctx_cluster = ''c1'', ctx_user = ''admin'', ctx_namespace = None \<rparr>],
       clusters = [\<lparr> cluster_name = ''c1'', cluster_server = ''https://10.0.0.1:6443'' \<rparr>],
       currentContext = ''dev'',
       config_path = [] \<rparr>"

definition sample_version :: version_info where
  "sample_version =
     \<lparr> gitVersion = Some ''v1.29.0'', platform = Some ''linux/amd64'', major = Some ''1'', minor = Some ''29'' \<rparr>"

text \<open>A cluster whose client calls all succeed with the given item lists; no \<^verbatim>\<open>kubectl\<close> installed.\<close>

definition sample_env :: "(collection \<Rightarrow> resource list) \<Rightarrow> env" where
  "sample_env given =
     \<lparr> DEFAULT_KUBECONFIG = ''/home/op/.kube/config'',
       kubeconfig_file = Some sample_config,
       getCode = Fulfilled (WithBody (Some sample_version)),
       list_call = (\<lambda>c. Fulfilled (WithBody (Some \<lparr> list_items = Some (given c) \<rparr>))),
       spawnSync = (\<lambda>cmd args path.
          \<lparr> spawn_error = Some (Error ''spawn kubectl ENOENT''), exit_status = None,
            stdout = [], stderr = [] \<rparr>),
       JSON_parse = (\<lambda>s. Inl (Error ''Unexpected token'')) \<rparr>"

definition in_namespace :: "string \<Rightarrow> resource" where
  "in_namespace ns =
     \<lparr> metadata = Some \<lparr> meta_name = Some ''web'', meta_namespace = Some ns, meta_labels = None \<rparr>,
       status = None, spec = None \<rparr>"

definition sample_deployment :: "int option \<Rightarrow> int option \<Rightarrow> resource" where
  "sample_deployment r n =
     \<lparr> metadata = Some \<lparr> meta_name = Some ''api'', meta_namespace = Some ''prod'', meta_labels = None \<rparr>,
       status = Some \<lparr> phase = None, conditions = None, nodeInfo = None, capacity = None,
                       readyReplicas = r, replicas = n \<rparr>,
       spec = None \<rparr>"

definition labelled_node :: "(string \<times> string) list \<Rightarrow> string \<Rightarrow> resource" where
  "labelled_node ls ready_status =
     \<lparr> metadata = Some \<lparr> meta_name = Some ''node-1'', meta_namespace = None, meta_labels = Some ls \<rparr>,
       status = Some \<lparr> phase = None,
                       conditions = Some [\<lparr> cond_type = ''Ready'', cond_status = ready_status \<rparr>],
                       nodeInfo = None, capacity = None, readyReplicas = None, replicas = None \<rparr>,
       spec = None \<rparr>"

definition only :: "collection \<Rightarrow> resource list \<Rightarrow> collection \<Rightarrow> resource list" where
  "only c xs = (\<lambda>c'. if c' = c then xs else [])"

definition unreachable :: rejection where
  "unreachable =
     \<lparr> response_body_json = None,
       message = Some ''connect ECONNREFUSED 10.0.0.1:6443'',
       as_string = ''Error: connect ECONNREFUSED 10.0.0.1:6443'' \<rparr>"

definition forbidden :: rejection where
  "forbidden =
     \<lparr> response_body_json = Some ''{\"kind\":\"Status\",\"code\":403}'',
       message = Some ''HTTP request failed'',
       as_string = ''Error: HTTP request failed'' \<rparr>"

text \<open>The sample cluster, with the client call of one kind rejecting.\<close>

definition rejecting :: "kind \<Rightarrow> rejection \<Rightarrow> env" where
  "rejecting k reason =
     (sample_env (\<lambda>c. []))
       \<lparr> getCode := (if k = Version then Rejected reason else Fulfilled (WithBody (Some sample_version))),
         list_call := (\<lambda>c. if k = Coll c then Rejected reason
                            else Fulfilled (WithBody (Some \<lparr> list_items = Some [] \<rparr>))) \<rparr>"

section \<open>Properties\<close>

subsection \<open>Shared facts about the run\<close>

lemma makeClientForContext_path:
  "makeClientForContext env contextName = Inr kc \<Longrightarrow> config_path kc = DEFAULT_KUBECONFIG env"
  by (auto simp: makeClientForContext_def loadKubeConfig_def Let_def
           split: option.splits sum.splits if_splits)

lemma buildSummary_passes:
  assumes "makeClientForContext env contextName = Inr kc"
    and "rejected (getCode env) = None"
    and "rejected (list_call env Nodes) = None"
  shows "buildSummary env contextName detail =
     (Inr (make_summary kc (retrieved_version env) (retrieved env) detail),
      map Api all_kinds @ fallback_trace env (DEFAULT_KUBECONFIG env))"
proof -
  have "retrieved env = (\<lambda>c. fst (resolved_items env (DEFAULT_KUBECONFIG env) c))"
    by (rule ext) (simp add: retrieved_def)
  with assms makeClientForContext_path [OF assms(1)] show ?thesis
    by (simp add: buildSummary_def versionResp_def listResp_def retrieved_version_def Let_def)
qed

lemma buildSummary_aborts:
  assumes "makeClientForContext env contextName = Inr kc"
    and "pickSettledError [rejected (getCode env), rejected (list_call env Nodes)] = Some e"
  shows "buildSummary env contextName detail =
     (Inl (Error (''Cluster API request failed: '' @ error_body e)), map Api all_kinds)"
  using assms by (simp add: buildSummary_def versionResp_def listResp_def Let_def)

lemma buildSummary_success:
  assumes "fst (buildSummary env contextName detail) = Inr s"
  shows "\<exists>kc. makeClientForContext env contextName = Inr kc
     \<and> rejected (getCode env) = None \<and> rejected (list_call env Nodes) = None
     \<and> s = make_summary kc (retrieved_version env) (retrieved env) detail"
proof (cases "makeClientForContext env contextName")
  case (Inl e)
  with assms show ?thesis by (simp add: buildSummary_def)
next
  case (Inr kc)
  show ?thesis
  proof (cases "pickSettledError [rejected (getCode env), rejected (list_call env Nodes)]")
    case None
    then have ok: "rejected (getCode env) = None" "rejected (list_call env Nodes) = None"
      by (auto split: option.splits)
    from buildSummary_passes [OF Inr ok] assms Inr ok show ?thesis by simp
  next
    case (Some e)
    from buildSummary_aborts [OF Inr Some] assms show ?thesis by simp
  qed
qed

lemma sample_env_client:
  "makeClientForContext (sample_env given) None = Inr (sample_config\<lparr>config_path := ''/home/op/.kube/config''\<rparr>)"
  by (simp add: makeClientForContext_def loadKubeConfig_def sample_env_def Let_def)

lemma sample_env_runs:
  "buildSummary (sample_env given) None detail =
     (Inr (make_summary (sample_config\<lparr>config_path := ''/home/op/.kube/config''\<rparr>)
             (retrieved_version (sample_env given)) (retrieved (sample_env given)) detail),
      map Api all_kinds @ fallback_trace (sample_env given) ''/home/op/.kube/config'')"
proof -
  have "rejected (getCode (sample_env given)) = None"
    and "rejected (list_call (sample_env given) Nodes) = None"
    by (simp_all add: rejected_def sample_env_def)
  from buildSummary_passes [OF sample_env_client this] show ?thesis
    by (simp add: sample_env_def)
qed

lemma sample_env_retrieved: "retrieved (sample_env given) c = given c"
  by (simp add: retrieved_def resolved_items_def fallback_items_def primary_items_def
        items_or_empty_def unwrap_def toOk_def listResp_def execJson_def sample_env_def Let_def)

subsection \<open>Node roles\<close>

lemma split_no_sep: "sep \<notin> set k \<Longrightarrow> split sep k = [k]"
  by (induction k) auto

lemma split_at_sep: "sep \<notin> set p \<Longrightarrow> split sep (p @ sep # q) = p # split sep q"
  by (induction p) auto

lemma split_hd: "\<exists>w ws. split sep q = w # ws \<and> w = takeWhile (\<lambda>c. c \<noteq> sep) q"
  by (induction q) (auto split: list.splits)

lemma role_of_key_no_slash: "CHR ''/'' \<notin> set k \<Longrightarrow> role_of_key k = ''role''"
  by (simp add: role_of_key_def split_no_sep)

lemma role_of_key_slash:
  assumes "CHR ''/'' \<notin> set p"
  shows "role_of_key (p @ CHR ''/'' # q) =
     (if takeWhile (\<lambda>c. c \<noteq> CHR ''/'') q = [] then ''role'' else takeWhile (\<lambda>c. c \<noteq> CHR ''/'') q)"
proof -
  obtain w ws where "split CHR ''/'' q = w # ws" "w = takeWhile (\<lambda>c. c \<noteq> CHR ''/'') q"
    using split_hd by blast
  then show ?thesis using assms by (simp add: role_of_key_def split_at_sep)
qed

lemma node_roles_label_keys:
  "node_roles n = map role_of_key (filter (\<lambda>k. startsWith k ''node-role.kubernetes.io'') (label_keys n))"
  by (simp add: node_roles_def label_keys_def filter_map comp_def case_prod_unfold split: option.splits)

lemma summary_nodes_items:
  "nodes_items (summary_nodes (make_summary kc ver final detail)) = map nodeItem (final Nodes)"
  by (simp add: make_summary_def Let_def)

lemma role_of_key_examples:
  "role_of_key ''node-role.kubernetes.io/control-plane'' = ''control-plane''"
  "role_of_key ''node-role.kubernetes.io'' = ''role''"
  by (simp_all add: role_of_key_def)

text \<open>
  C8. The \<open>roles\<close> of a node row are computed from the label keys of the node that
  start with \<^verbatim>\<open>node-role.kubernetes.io\<close>, in the order of the labels: a key without a
  slash gives \<^verbatim>\<open>role\<close>, a key with a slash gives the segment between its first slash
  and the next one (or the end), and \<^verbatim>\<open>role\<close> when that segment is empty. A node whose
  only label is \<^verbatim>\<open>node-role.kubernetes.io/control-plane\<close> has the roles
  \<^verbatim>\<open>["control-plane"]\<close>; one whose only label is \<^verbatim>\<open>node-role.kubernetes.io\<close> has
  \<^verbatim>\<open>["role"]\<close>.
\<close>

theorem node_row_roles:
  assumes "fst (buildSummary env contextName detail) = Inr s"
    and "i < length (retrieved env Nodes)"
  shows "length (nodes_items (summary_nodes s)) = length (retrieved env Nodes)
     \<and> roles (nodes_items (summary_nodes s) ! i) =
           map role_of_key
             (filter (\<lambda>k. startsWith k ''node-role.kubernetes.io'') (label_keys (retrieved env Nodes ! i)))
     \<and> (\<forall>k. CHR ''/'' \<notin> set k \<longrightarrow> role_of_key k = ''role'')
     \<and> (\<forall>p q. CHR ''/'' \<notin> set p \<longrightarrow>
           role_of_key (p @ CHR ''/'' # q) =
             (if takeWhile (\<lambda>c. c \<noteq> CHR ''/'') q = [] then ''role''
              else takeWhile (\<lambda>c. c \<noteq> CHR ''/'') q))
     \<and> (label_keys (retrieved env Nodes ! i) = [''node-role.kubernetes.io/control-plane''] \<longrightarrow>
           roles (nodes_items (summary_nodes s) ! i) = [''control-plane''])
     \<and> (label_keys (retrieved env Nodes ! i) = [''node-role.kubernetes.io''] \<longrightarrow>
           roles (nodes_items (summary_nodes s) ! i) = [''role''])"
proof -
  from buildSummary_success [OF assms(1)] obtain kc where
    s: "s = make_summary kc (retrieved_version env) (retrieved env) detail" by blast
  have r: "roles (nodes_items (summary_nodes s) ! i) =
           map role_of_key
             (filter (\<lambda>k. startsWith k ''node-role.kubernetes.io'') (label_keys (retrieved env Nodes ! i)))"
    using assms(2) by (simp add: s summary_nodes_items nodeItem_def node_roles_label_keys)
  have e1: "label_keys (retrieved env Nodes ! i) = [''node-role.kubernetes.io/control-plane''] \<longrightarrow>
           roles (nodes_items (summary_nodes s) ! i) = [''control-plane'']"
    unfolding r by (simp add: startsWith_def role_of_key_examples)
  have e2: "label_keys (retrieved env Nodes ! i) = [''node-role.kubernetes.io''] \<longrightarrow>
           roles (nodes_items (summary_nodes s) ! i) = [''role'']"
    unfolding r by (simp add: startsWith_def role_of_key_examples)
  have len: "length (nodes_items (summary_nodes s)) = length (retrieved env Nodes)"
    by (simp add: s summary_nodes_items)
  from len r e1 e2 role_of_key_no_slash role_of_key_slash show ?thesis by blast
qed

theorem node_row_roles_witness:
  "roles (nodes_items (summary_nodes (projr (fst (buildSummary
      (sample_env (only Nodes [labelled_node [(''node-role.kubernetes.io/control-plane'', [])] ''True'']))
      None False)))) ! 0) = [''control-plane'']
   \<and> roles (nodes_items (summary_nodes (projr (fst (buildSummary
      (sample_env (only Nodes [labelled_node [(''node-role.kubernetes.io'', ''true'')] ''True'']))
      None False)))) ! 0) = [''role'']
   \<and> role_of_key ''node-role.kubernetes.io/'' = ''role''"
proof -
  let ?env = "sample_env (only Nodes [labelled_node [(''node-role.kubernetes.io/control-plane'', [])] ''True''])"
  let ?env' = "sample_env (only Nodes [labelled_node [(''node-role.kubernetes.io'', ''true'')] ''True''])"
  have run: "fst (buildSummary ?env None False) = Inr (projr (fst (buildSummary ?env None False)))"
    and run': "fst (buildSummary ?env' None False) = Inr (projr (fst (buildSummary ?env' None False)))"
    by (simp_all add: sample_env_runs)
  have len: "0 < length (retrieved ?env Nodes)" and len': "0 < length (retrieved ?env' Nodes)"
    by (simp_all add: sample_env_retrieved only_def)
  have keys: "label_keys (retrieved ?env Nodes ! 0) = [''node-role.kubernetes.io/control-plane'']"
    and keys': "label_keys (retrieved ?env' Nodes ! 0) = [''node-role.kubernetes.io'']"
    by (simp_all add: sample_env_retrieved only_def label_keys_def labelled_node_def)
  have slash: "CHR ''/'' \<notin> set ''node-role.kubernetes.io''" by simp
  note r = node_row_roles [OF run len] and r' = node_row_roles [OF run' len']
  from r [THEN conjunct2, THEN conjunct2, THEN conjunct2, THEN conjunct2, THEN conjunct1, rule_format, OF keys]
  have "roles (nodes_items (summary_nodes (projr (fst (buildSummary ?env None False)))) ! 0) = [''control-plane'']" .
  moreover from r' [THEN conjunct2, THEN conjunct2, THEN conjunct2, THEN conjunct2, THEN conjunct2, rule_format, OF keys']
  have "roles (nodes_items (summary_nodes (projr (fst (buildSummary ?env' None False)))) ! 0) = [''role'']" .
  moreover from r [THEN conjunct2, THEN conjunct2, THEN conjunct2, THEN conjunct1, rule_format, OF slash, of "[]"]
  have "role_of_key ''node-role.kubernetes.io/'' = ''role''" by simp
  ultimately show ?thesis by simp
qed

subsection \<open>Node statistics\<close>

lemma is_ready_iff:
  "is_ready n \<longleftrightarrow> (\<exists>c \<in> set (node_conditions n). cond_type c = ''Ready'' \<and> cond_status c = ''True'')"
  by (simp add: is_ready_def node_conditions_def list_ex_iff)

lemma summary_nodes_counts:
  "nodes_total (summary_nodes (make_summary kc ver final detail)) = int (length (final Nodes))"
  "nodes_ready (summary_nodes (make_summary kc ver final detail)) = readyCount (final Nodes)"
  "nodes_notReady (summary_nodes (make_summary kc ver final detail)) =
     max (int (length (final Nodes)) - readyCount (final Nodes)) 0"
  by (simp_all add: make_summary_def Let_def)

lemma readyCount_le: "readyCount nodes \<le> int (length nodes)"
  by (simp add: readyCount_def)

text \<open>
  C4. In every summary returned, \<open>ready + notReady = total\<close>, where \<open>total\<close> is the
  number of retrieved nodes, \<open>ready\<close> counts the retrieved nodes with a condition of type
  \<^verbatim>\<open>Ready\<close> and status the string \<^verbatim>\<open>True\<close>, and \<open>notReady\<close> is \<open>total - ready\<close>
  floored at 0.
\<close>

theorem nodes_ready_notReady_total:
  assumes "fst (buildSummary env contextName detail) = Inr s"
  shows "nodes_ready (summary_nodes s) + nodes_notReady (summary_nodes s) = nodes_total (summary_nodes s)
     \<and> nodes_total (summary_nodes s) = int (length (retrieved env Nodes))
     \<and> nodes_ready (summary_nodes s) =
          int (length (filter
            (\<lambda>n. \<exists>c \<in> set (node_conditions n). cond_type c = ''Ready'' \<and> cond_status c = ''True'')
            (retrieved env Nodes)))
     \<and> nodes_notReady (summary_nodes s) =
          max (nodes_total (summary_nodes s) - nodes_ready (summary_nodes s)) 0"
proof -
  from buildSummary_success [OF assms] obtain kc where
    s: "s = make_summary kc (retrieved_version env) (retrieved env) detail" by blast
  have "readyCount (retrieved env Nodes) =
          int (length (filter
            (\<lambda>n. \<exists>c \<in> set (node_conditions n). cond_type c = ''Ready'' \<and> cond_status c = ''True'')
            (retrieved env Nodes)))"
    by (simp add: readyCount_def is_ready_iff [abs_def])
  with readyCount_le [of "retrieved env Nodes"] show ?thesis
    by (simp add: s summary_nodes_counts)
qed

theorem nodes_ready_notReady_total_witness:
  "nodes_total (summary_nodes (projr (fst (buildSummary
      (sample_env (only Nodes [labelled_node [] ''True'', labelled_node [] ''False'', labelled_node [] ''true'']))
      None False)))) = 3
   \<and> nodes_ready (summary_nodes (projr (fst (buildSummary
      (sample_env (only Nodes [labelled_node [] ''True'', labelled_node [] ''False'', labelled_node [] ''true'']))
      None False)))) = 1
   \<and> nodes_notReady (summary_nodes (projr (fst (buildSummary
      (sample_env (only Nodes [labelled_node [] ''True'', labelled_node [] ''False'', labelled_node [] ''true'']))
      None False)))) = 2"
proof -
  let ?env = "sample_env (only Nodes [labelled_node [] ''True'', labelled_node [] ''False'', labelled_node [] ''true''])"
  let ?s = "projr (fst (buildSummary ?env None False))"
  have run: "fst (buildSummary ?env None False) = Inr ?s"
    by (simp add: sample_env_runs)
  have nodes: "retrieved ?env Nodes = [labelled_node [] ''True'', labelled_node [] ''False'', labelled_node [] ''true'']"
    by (simp add: sample_env_retrieved only_def)
  have conds: "node_conditions (labelled_node [] st) = [\<lparr> cond_type = ''Ready'', cond_status = st \<rparr>]" for st
    by (simp add: node_conditions_def labelled_node_def)
  note r = nodes_ready_notReady_total [OF run]
  from r have total: "nodes_total (summary_nodes ?s) = 3"
    unfolding nodes by simp
  from r have ready: "nodes_ready (summary_nodes ?s) = 1"
    unfolding nodes by (simp add: conds)
  from r total ready show ?thesis by simp
qed

subsection \<open>The detail block\<close>

lemma summary_details_make:
  "summary_details (make_summary kc ver final detail) = (if detail then Some (make_details final) else None)"
  by (simp add: make_summary_def Let_def)

lemma make_details_fields:
  "details_pods (make_details final) = map pod_detail (take 500 (final Pods))"
  "details_deployments (make_details final) = map deployment_detail (take 500 (final Deployments))"
  "details_services (make_details final) = map service_detail (take 500 (final Services))"
  "details_ingresses (make_details final) = map ingress_detail (take 500 (final Ingresses))"
  "details_pvcs (make_details final) = map pvc_detail (take 500 (final PersistentVolumeClaims))"
  by (simp_all add: make_details_def)

text \<open>
  C6. With detail requested, each of the five arrays of the detail block is the row
  projection of the first 500 items (fewer when there are fewer) of the retrieved
  collection, in retrieval order, so none is longer than 500, and 600 retrieved pods give
  500 pod rows. Without detail requested there is no detail block.
\<close>

theorem details_capped:
  assumes "fst (buildSummary env contextName detail) = Inr s"
  shows "(detail \<longrightarrow>
            (\<exists>d. summary_details s = Some d
               \<and> details_pods d = map pod_detail (take 500 (retrieved env Pods))
               \<and> details_deployments d = map deployment_detail (take 500 (retrieved env Deployments))
               \<and> details_services d = map service_detail (take 500 (retrieved env Services))
               \<and> details_ingresses d = map ingress_detail (take 500 (retrieved env Ingresses))
               \<and> details_pvcs d = map pvc_detail (take 500 (retrieved env PersistentVolumeClaims))
               \<and> length (details_pods d) \<le> 500
               \<and> length (details_deployments d) \<le> 500
               \<and> length (details_services d) \<le> 500
               \<and> length (details_ingresses d) \<le> 500
               \<and> length (details_pvcs d) \<le> 500
               \<and> (length (retrieved env Pods) = 600 \<longrightarrow> length (details_pods d) = 500)))
     \<and> (\<not> detail \<longrightarrow> summary_details s = None)"
proof -
  from buildSummary_success [OF assms] obtain kc where
    s: "s = make_summary kc (retrieved_version env) (retrieved env) detail" by blast
  show ?thesis
    by (simp add: s summary_details_make make_details_fields)
qed

theorem details_capped_witness:
  "length (details_pods (the (summary_details (projr (fst (buildSummary
      (sample_env (only Pods (replicate 600 (in_namespace ''prod'')))) None True)))))) = 500
   \<and> summary_details (projr (fst (buildSummary
      (sample_env (only Pods (replicate 600 (in_namespace ''prod'')))) None False))) = None"
proof -
  let ?env = "sample_env (only Pods (replicate 600 (in_namespace ''prod'')))"
  have run: "fst (buildSummary ?env None d) = Inr (projr (fst (buildSummary ?env None d)))" for d
    by (simp add: sample_env_runs)
  have pods: "length (retrieved ?env Pods) = 600"
    by (simp add: sample_env_retrieved only_def)
  from details_capped [OF run [of True]] pods
  have "length (details_pods (the (summary_details (projr (fst (buildSummary ?env None True)))))) = 500"
    by auto
  moreover from details_capped [OF run [of False]]
  have "summary_details (projr (fst (buildSummary ?env None False))) = None"
    by simp
  ultimately show ?thesis by simp
qed

subsection \<open>Deployment rows\<close>

lemma show_int_small: "show_int 0 = ''0''" "show_int 2 = ''2''" "show_int 3 = ''3''"
  by (simp_all add: show_int_def show_nat.simps digit_char_def)

text \<open>
  C9. The \<open>ready\<close> string of the \<open>i\<close>-th deployment row of the detail block is the decimal
  \<^verbatim>\<open>readyReplicas\<close> and \<^verbatim>\<open>replicas\<close> of the \<open>i\<close>-th retrieved deployment joined by a
  slash, each 0 when missing: 2 and 3 give \<^verbatim>\<open>2/3\<close>, both missing give \<^verbatim>\<open>0/0\<close>.
\<close>

theorem deployment_ready_string:
  assumes "fst (buildSummary env contextName detail) = Inr s"
    and "summary_details s = Some d"
    and "i < length (details_deployments d)"
  shows "i < length (retrieved env Deployments)
     \<and> deployment_ready (details_deployments d ! i) =
          show_int (case Option.bind (status (retrieved env Deployments ! i)) readyReplicas of
                      None \<Rightarrow> 0 | Some r \<Rightarrow> r)
            @ ''/'' @
          show_int (case Option.bind (status (retrieved env Deployments ! i)) replicas of
                      None \<Rightarrow> 0 | Some n \<Rightarrow> n)
     \<and> (Option.bind (status (retrieved env Deployments ! i)) readyReplicas = Some 2
          \<and> Option.bind (status (retrieved env Deployments ! i)) replicas = Some 3
          \<longrightarrow> deployment_ready (details_deployments d ! i) = ''2/3'')
     \<and> (Option.bind (status (retrieved env Deployments ! i)) readyReplicas = None
          \<and> Option.bind (status (retrieved env Deployments ! i)) replicas = None
          \<longrightarrow> deployment_ready (details_deployments d ! i) = ''0/0'')"
proof -
  from buildSummary_success [OF assms(1)] obtain kc where
    s: "s = make_summary kc (retrieved_version env) (retrieved env) detail" by blast
  from assms(2) have d: "d = make_details (retrieved env)"
    by (simp add: s summary_details_make split: if_splits)
  from assms(3) have i: "i < length (retrieved env Deployments)"
    by (simp add: d make_details_fields)
  have row: "details_deployments d ! i = deployment_detail (retrieved env Deployments ! i)"
    using assms(3) by (simp add: d make_details_fields)
  show ?thesis
    by (simp add: i row deployment_detail_def or_zero_def show_int_small)
qed

theorem deployment_ready_string_witness:
  "map deployment_ready (details_deployments (the (summary_details (projr (fst (buildSummary
      (sample_env (only Deployments [sample_deployment (Some 2) (Some 3), sample_deployment None None]))
      None True)))))) = [''2/3'', ''0/0'']"
proof -
  let ?env = "sample_env (only Deployments [sample_deployment (Some 2) (Some 3), sample_deployment None None])"
  let ?s = "projr (fst (buildSummary ?env None True))"
  let ?d = "the (summary_details ?s)"
  have run: "fst (buildSummary ?env None True) = Inr ?s"
    by (simp add: sample_env_runs)
  have det: "summary_details ?s = Some ?d"
    by (simp add: sample_env_runs summary_details_make)
  have deps: "retrieved ?env Deployments = [sample_deployment (Some 2) (Some 3), sample_deployment None None]"
    by (simp add: sample_env_retrieved only_def)
  have len: "length (details_deployments ?d) = 2"
    by (simp add: sample_env_runs summary_details_make make_details_fields deps)
  have i0: "0 < length (details_deployments ?d)" and i1: "1 < length (details_deployments ?d)"
    by (simp_all add: len)
  have st0: "Option.bind (status (retrieved ?env Deployments ! 0)) readyReplicas = Some 2
      \<and> Option.bind (status (retrieved ?env Deployments ! 0)) replicas = Some 3"
    and st1: "Option.bind (status (retrieved ?env Deployments ! 1)) readyReplicas = None
      \<and> Option.bind (status (retrieved ?env Deployments ! 1)) replicas = None"
    unfolding deps by (simp_all add: sample_deployment_def)
  from deployment_ready_string [OF run det i0, THEN conjunct2, THEN conjunct2, THEN conjunct1, rule_format, OF st0]
  have r0: "deployment_ready (details_deployments ?d ! 0) = ''2/3''" .
  from deployment_ready_string [OF run det i1, THEN conjunct2, THEN conjunct2, THEN conjunct2, rule_format, OF st1]
  have r1: "deployment_ready (details_deployments ?d ! 1) = ''0/0''" .
  have "map deployment_ready (details_deployments ?d) =
          [deployment_ready (details_deployments ?d ! 0), deployment_ready (details_deployments ?d ! 1)]"
    using len by (auto simp: list_eq_iff_nth_eq less_Suc_eq numeral_2_eq_2)
  with r0 r1 show ?thesis by simp
qed

subsection \<open>Errors of the client factory\<close>

lemma find_ctx_None:
  "n \<notin> ctx_name ` set cs \<Longrightarrow> find (\<lambda>c. ctx_name c = n) cs = None"
  by (auto simp: find_None_iff)

text \<open>
  C7 as stated fails for the empty name: \<^verbatim>\<open>if (contextName)\<close> takes an empty string as no
  name given, and the summary of the current context is returned.
\<close>

theorem context_not_found_counterexample:
  "[] \<notin> ctx_name ` set (contexts sample_config)
   \<and> kubeconfig_file (sample_env (\<lambda>c. [])) = Some sample_config
   \<and> \<not> isl (fst (buildSummary (sample_env (\<lambda>c. [])) (Some []) False))
   \<and> snd (buildSummary (sample_env (\<lambda>c. [])) (Some []) False) \<noteq> []"
proof -
  let ?env = "sample_env (\<lambda>c. [])"
  have client: "makeClientForContext ?env (Some []) = Inr (sample_config\<lparr>config_path := ''/home/op/.kube/config''\<rparr>)"
    by (simp add: makeClientForContext_def loadKubeConfig_def sample_env_def Let_def)
  have "rejected (getCode ?env) = None" and "rejected (list_call ?env Nodes) = None"
    by (simp_all add: rejected_def sample_env_def)
  note run = buildSummary_passes [OF client this, of False]
  have "[] \<notin> ctx_name ` set (contexts sample_config)"
    by (simp add: sample_config_def)
  moreover have "kubeconfig_file ?env = Some sample_config"
    by (simp add: sample_env_def)
  moreover have "\<not> isl (fst (buildSummary ?env (Some []) False))"
    by (simp add: run)
  moreover have "snd (buildSummary ?env (Some []) False) \<noteq> []"
    by (simp add: run all_kinds_def)
  ultimately show ?thesis by blast
qed

text \<open>
  C7, amended. When the kubeconfig loads and a non-empty context name is given that no
  context of the kubeconfig carries, \<open>buildSummary\<close> fails with the error of the client
  factory itself, \<^verbatim>\<open>Context not found: <name>\<close>, and has issued no client call and spawned
  no process.
\<close>

theorem context_not_found:
  assumes "kubeconfig_file env = Some cfg"
    and "n \<noteq> []"
    and "n \<notin> ctx_name ` set (contexts cfg)"
  shows "makeClientForContext env (Some n) = Inl (Error (''Context not found: '' @ n))
     \<and> buildSummary env (Some n) detail = (Inl (Error (''Context not found: '' @ n)), [])"
proof -
  from assms(3) have "find (\<lambda>c. ctx_name c = n) (contexts cfg) = None"
    by (rule find_ctx_None)
  with assms(1,2) have "makeClientForContext env (Some n) = Inl (Error (''Context not found: '' @ n))"
    by (simp add: makeClientForContext_def loadKubeConfig_def Let_def)
  then show ?thesis by (simp add: buildSummary_def)
qed

theorem context_not_found_witness:
  "buildSummary (sample_env (\<lambda>c. [])) (Some ''staging'') True =
     (Inl (Error ''Context not found: staging''), [])"
proof -
  have "kubeconfig_file (sample_env (\<lambda>c. [])) = Some sample_config"
    by (simp add: sample_env_def)
  moreover have "''staging'' \<noteq> []" by simp
  moreover have "''staging'' \<notin> ctx_name ` set (contexts sample_config)"
    by (simp add: sample_config_def)
  ultimately show ?thesis
    using context_not_found [of "sample_env (\<lambda>c. [])" sample_config "''staging''" True] by simp
qed

subsection \<open>The critical-path check\<close>

lemma error_body_cases:
  "response_body_json e = Some b \<Longrightarrow> b \<noteq> [] \<Longrightarrow> error_body e = b"
  "response_body_json e = None \<Longrightarrow> message e = Some m \<Longrightarrow> m \<noteq> [] \<Longrightarrow> error_body e = m"
  "response_body_json e = None \<Longrightarrow> message e = None \<Longrightarrow> error_body e = as_string e"
  "response_body_json e = None \<Longrightarrow> message e = Some [] \<Longrightarrow> error_body e = as_string e"
  by (simp_all add: error_body_def or_default_def)

lemma rejecting_client:
  "makeClientForContext (rejecting k reason) None = Inr (sample_config\<lparr>config_path := ''/home/op/.kube/config''\<rparr>)"
  by (simp add: makeClientForContext_def loadKubeConfig_def rejecting_def sample_env_def Let_def)

text \<open>
  C1 as stated fails where it says that the error names the failing call: the message is
  the fixed text \<^verbatim>\<open>Cluster API request failed: \<close> followed by what the failing call's
  error carried. A run in which only the version call rejects and a run in which only the
  node call rejects, with the same error, end in the same exception.
\<close>

theorem critical_failure_counterexample:
  "rejected (getCode (rejecting Version unreachable)) = Some unreachable
   \<and> rejected (list_call (rejecting Version unreachable) Nodes) = None
   \<and> rejected (getCode (rejecting (Coll Nodes) unreachable)) = None
   \<and> rejected (list_call (rejecting (Coll Nodes) unreachable) Nodes) = Some unreachable
   \<and> buildSummary (rejecting Version unreachable) None False =
       (Inl (Error ''Cluster API request failed: connect ECONNREFUSED 10.0.0.1:6443''), map Api all_kinds)
   \<and> buildSummary (rejecting (Coll Nodes) unreachable) None False =
       (Inl (Error ''Cluster API request failed: connect ECONNREFUSED 10.0.0.1:6443''), map Api all_kinds)"
proof -
  have v: "rejected (getCode (rejecting Version unreachable)) = Some unreachable"
    "rejected (list_call (rejecting Version unreachable) Nodes) = None"
    and n: "rejected (getCode (rejecting (Coll Nodes) unreachable)) = None"
    "rejected (list_call (rejecting (Coll Nodes) unreachable) Nodes) = Some unreachable"
    by (simp_all add: rejecting_def rejected_def)
  have body: "error_body unreachable = ''connect ECONNREFUSED 10.0.0.1:6443''"
    by (simp add: error_body_def or_default_def unreachable_def)
  have "pickSettledError [rejected (getCode (rejecting Version unreachable)),
          rejected (list_call (rejecting Version unreachable) Nodes)] = Some unreachable"
    by (simp add: v)
  from buildSummary_aborts [OF rejecting_client this]
  have a: "buildSummary (rejecting Version unreachable) None False =
       (Inl (Error ''Cluster API request failed: connect ECONNREFUSED 10.0.0.1:6443''), map Api all_kinds)"
    by (simp add: body)
  have "pickSettledError [rejected (getCode (rejecting (Coll Nodes) unreachable)),
          rejected (list_call (rejecting (Coll Nodes) unreachable) Nodes)] = Some unreachable"
    by (simp add: n)
  from buildSummary_aborts [OF rejecting_client this]
  have b: "buildSummary (rejecting (Coll Nodes) unreachable) None False =
       (Inl (Error ''Cluster API request failed: connect ECONNREFUSED 10.0.0.1:6443''), map Api all_kinds)"
    by (simp add: body)
  from v n a b show ?thesis by simp
qed

text \<open>
  C1, amended. When the client set was resolved and the version call or the node call
  rejects, \<open>buildSummary\<close> throws one error and returns no summary. Its message is
  \<^verbatim>\<open>Cluster API request failed: \<close> followed by the JSON text of the failing call's response
  body when its error carries one, else by the error's message, else by the error's
  string form; it does not otherwise say which call failed. A rejected version call is
  the one reported, whatever the node call did; the node call is reported when the
  version call was fulfilled. All thirteen client calls were issued and no fallback ran.
\<close>

theorem critical_failure_aborts:
  assumes "makeClientForContext env contextName = Inr kc"
  shows "(getCode env = Rejected v \<longrightarrow>
            buildSummary env contextName detail =
              (Inl (Error (''Cluster API request failed: '' @ error_body v)), map Api all_kinds))
     \<and> (getCode env = Fulfilled x \<and> list_call env Nodes = Rejected v \<longrightarrow>
            buildSummary env contextName detail =
              (Inl (Error (''Cluster API request failed: '' @ error_body v)), map Api all_kinds))
     \<and> (response_body_json v = Some b \<and> b \<noteq> [] \<longrightarrow> error_body v = b)
     \<and> (response_body_json v = None \<and> message v = Some m \<and> m \<noteq> [] \<longrightarrow> error_body v = m)
     \<and> (response_body_json v = None \<and> (message v = None \<or> message v = Some []) \<longrightarrow>
            error_body v = as_string v)"
proof -
  have "buildSummary env contextName detail =
          (Inl (Error (''Cluster API request failed: '' @ error_body v)), map Api all_kinds)"
    if "getCode env = Rejected v"
    using that by (intro buildSummary_aborts [OF assms]) (simp add: rejected_def)
  moreover have "buildSummary env contextName detail =
          (Inl (Error (''Cluster API request failed: '' @ error_body v)), map Api all_kinds)"
    if "getCode env = Fulfilled x" "list_call env Nodes = Rejected v"
    using that by (intro buildSummary_aborts [OF assms]) (simp add: rejected_def)
  ultimately show ?thesis
    using error_body_cases [of v] by blast
qed

theorem critical_failure_aborts_witness:
  "buildSummary (rejecting Version forbidden) None True =
     (Inl (Error ''Cluster API request failed: {\"kind\":\"Status\",\"code\":403}''), map Api all_kinds)
   \<and> buildSummary (rejecting (Coll Nodes) unreachable) None True =
     (Inl (Error ''Cluster API request failed: connect ECONNREFUSED 10.0.0.1:6443''), map Api all_kinds)"
proof -
  note r = critical_failure_aborts [OF rejecting_client]
  have g: "getCode (rejecting Version forbidden) = Rejected forbidden"
    by (simp add: rejecting_def)
  have b: "response_body_json forbidden = Some ''{\"kind\":\"Status\",\"code\":403}''
      \<and> ''{\"kind\":\"Status\",\"code\":403}'' \<noteq> []"
    by (simp add: forbidden_def)
  have n: "getCode (rejecting (Coll Nodes) unreachable) = Fulfilled (WithBody (Some sample_version))
      \<and> list_call (rejecting (Coll Nodes) unreachable) Nodes = Rejected unreachable"
    by (simp add: rejecting_def)
  have m: "response_body_json unreachable = None
      \<and> message unreachable = Some ''connect ECONNREFUSED 10.0.0.1:6443''
      \<and> ''connect ECONNREFUSED 10.0.0.1:6443'' \<noteq> []"
    by (simp add: unreachable_def)
  from r [THEN conjunct1, rule_format, OF g]
    r [THEN conjunct2, THEN conjunct2, THEN conjunct1, rule_format, OF b]
  have "buildSummary (rejecting Version forbidden) None True =
     (Inl (Error ''Cluster API request failed: {\"kind\":\"Status\",\"code\":403}''), map Api all_kinds)"
    by simp
  moreover
  from r [THEN conjunct2, THEN conjunct1, rule_format, OF n]
    r [THEN conjunct2, THEN conjunct2, THEN conjunct2, THEN conjunct1, rule_format, OF m]
  have "buildSummary (rejecting (Coll Nodes) unreachable) None True =
     (Inl (Error ''Cluster API request failed: connect ECONNREFUSED 10.0.0.1:6443''), map Api all_kinds)"
    by simp
  ultimately show ?thesis by simp
qed

subsection \<open>The fallback pass\<close>

lemma all_collections_UNIV: "set all_collections = UNIV"
proof -
  have "c \<in> set all_collections" for c
    by (cases c) (simp_all add: all_collections_def)
  then show ?thesis by blast
qed

lemma rejected_primary_empty:
  "list_call env c = Rejected r \<Longrightarrow> primary_items env c = []"
  by (cases "c = Ingresses") (simp_all add: primary_items_def listResp_def toOk_def unwrap_def items_or_empty_def)

lemma rejected_primary_version: "getCode env = Rejected r \<Longrightarrow> primary_version env = None"
  by (simp add: primary_version_def versionResp_def toOk_def unwrap_def)

lemma fallback_items_trace:
  "snd (fallback_items env p c xs) = (if xs = [] then [fallback_call (Coll c)] else [])"
  by (simp add: fallback_items_def split: sum.splits json.splits)

lemma fallback_version_trace:
  "snd (fallback_version env p ver) = (if ver = None then [fallback_call Version] else [])"
  by (simp add: fallback_version_def split: option.splits sum.splits json.splits)

lemma retrieved_failed:
  "primary_items env c = [] \<Longrightarrow> kubectl_fails env (Coll c) \<Longrightarrow> retrieved env c = []"
  by (simp add: retrieved_def resolved_items_def fallback_items_def kubectl_fails_def
           split: sum.splits json.splits)

lemma retrieved_version_failed:
  "primary_version env = None \<Longrightarrow> kubectl_fails env Version \<Longrightarrow> retrieved_version env = None"
  by (simp add: retrieved_version_def resolved_version_def fallback_version_def kubectl_fails_def
           split: sum.splits json.splits)

lemma kubectl_args_inj: "kubectl_args k = kubectl_args k' \<Longrightarrow> k = k'"
proof (cases k)
  case Version
  then show "kubectl_args k = kubectl_args k' \<Longrightarrow> k = k'"
    by (cases k'; simp add: kubectl_args_def split: collection.splits)
next
  case (Coll c)
  note kc = this
  show "kubectl_args k = kubectl_args k' \<Longrightarrow> k = k'"
  proof (cases k')
    case Version
    with kc show "kubectl_args k = kubectl_args k' \<Longrightarrow> k = k'"
      by (simp add: kubectl_args_def split: collection.splits)
  next
    case (Coll c')
    with kc show "kubectl_args k = kubectl_args k' \<Longrightarrow> k = k'"
      by (cases c; cases c'; simp add: kubectl_args_def)
  qed
qed

lemma fallback_call_eq: "fallback_call k = fallback_call k' \<longleftrightarrow> k = k'"
  by (auto simp: fallback_call_def dest: kubectl_args_inj)

lemma fallback_trace_iff:
  "fallback_call k \<in> set (fallback_trace env p) \<longleftrightarrow> primary_empty env k"
proof (cases k)
  case Version
  then show ?thesis
    by (auto simp: fallback_trace_def resolved_version_def resolved_items_def
          fallback_version_trace fallback_items_trace fallback_call_eq primary_empty_def
          split: if_splits)
next
  case (Coll c)
  then show ?thesis
    using all_collections_UNIV
    by (auto simp: fallback_trace_def resolved_version_def resolved_items_def
          fallback_version_trace fallback_items_trace fallback_call_eq primary_empty_def
          split: if_splits)
qed

lemma fallback_call_not_api: "fallback_call k \<notin> set (map Api ks)"
  by (auto simp: fallback_call_def)

lemma collection_count_make:
  "collection_count (make_summary kc ver final detail) c = int (length (final c))"
  by (cases c) (simp_all add: collection_count_def make_summary_def Let_def)

lemma summary_version_make: "summary_version (make_summary kc ver final detail) = ver"
  by (simp add: make_summary_def Let_def)

text \<open>
  C2. When the client set was resolved, the version call and the node call are fulfilled,
  the client call of another kind rejects and the fallback of that kind fails too,
  \<open>buildSummary\<close> returns a summary in which the count of that kind is 0 and, with detail
  requested, the detail array of that kind (if it has one) is empty.
\<close>

theorem noncritical_failure_degrades:
  assumes "makeClientForContext env contextName = Inr kc"
    and "getCode env = Fulfilled v"
    and "list_call env Nodes = Fulfilled w"
    and "c \<noteq> Nodes"
    and "list_call env c = Rejected r"
    and "kubectl_fails env (Coll c)"
  shows "\<exists>s. fst (buildSummary env contextName detail) = Inr s
     \<and> collection_count s c = 0
     \<and> (detail \<longrightarrow>
          (\<exists>d. summary_details s = Some d
             \<and> (c = Pods \<longrightarrow> details_pods d = [])
             \<and> (c = Deployments \<longrightarrow> details_deployments d = [])
             \<and> (c = Services \<longrightarrow> details_services d = [])
             \<and> (c = Ingresses \<longrightarrow> details_ingresses d = [])
             \<and> (c = PersistentVolumeClaims \<longrightarrow> details_pvcs d = [])))"
proof -
  let ?s = "make_summary kc (retrieved_version env) (retrieved env) detail"
  from assms(2,3) have "rejected (getCode env) = None" "rejected (list_call env Nodes) = None"
    by (simp_all add: rejected_def)
  from buildSummary_passes [OF assms(1) this]
  have run: "fst (buildSummary env contextName detail) = Inr ?s" by simp
  from assms(5) have "primary_items env c = []" by (rule rejected_primary_empty)
  then have empty: "retrieved env c = []" using assms(6) by (rule retrieved_failed)
  then have count: "collection_count ?s c = 0" by (simp add: collection_count_make)
  have det: "detail \<longrightarrow>
          (\<exists>d. summary_details ?s = Some d
             \<and> (c = Pods \<longrightarrow> details_pods d = [])
             \<and> (c = Deployments \<longrightarrow> details_deployments d = [])
             \<and> (c = Services \<longrightarrow> details_services d = [])
             \<and> (c = Ingresses \<longrightarrow> details_ingresses d = [])
             \<and> (c = PersistentVolumeClaims \<longrightarrow> details_pvcs d = []))"
    using empty by (auto simp: summary_details_make make_details_fields)
  from run count det show ?thesis by blast
qed

lemma sample_kubectl_fails: "kubectl_fails (rejecting k' reason) k"
  by (simp add: kubectl_fails_def execJson_def rejecting_def sample_env_def Let_def)

theorem noncritical_failure_degrades_witness:
  "\<exists>s d. fst (buildSummary (rejecting (Coll Ingresses) unreachable) None True) = Inr s
     \<and> workloads_ingresses (summary_workloads s) = 0
     \<and> summary_details s = Some d \<and> details_ingresses d = []"
proof -
  let ?env = "rejecting (Coll Ingresses) unreachable"
  have "getCode ?env = Fulfilled (WithBody (Some sample_version))"
    and "list_call ?env Nodes = Fulfilled (WithBody (Some \<lparr> list_items = Some [] \<rparr>))"
    and "Ingresses \<noteq> Nodes"
    and "list_call ?env Ingresses = Rejected unreachable"
    by (simp_all add: rejecting_def)
  from noncritical_failure_degrades [OF rejecting_client this sample_kubectl_fails, of True]
  show ?thesis by (auto simp: collection_count_def)
qed

text \<open>
  C3 as stated fails in a run that the critical-path check aborts: no fallback runs for
  any kind, also not for a kind that did not cause the abort and whose primary result is
  empty.
\<close>

theorem fallback_policy_counterexample:
  "rejected (getCode (rejecting Version unreachable)) = Some unreachable
   \<and> list_call (rejecting Version unreachable) Pods = Fulfilled (WithBody (Some \<lparr> list_items = Some [] \<rparr>))
   \<and> primary_empty (rejecting Version unreachable) (Coll Pods)
   \<and> fallback_call (Coll Pods) \<notin> set (snd (buildSummary (rejecting Version unreachable) None False))"
proof -
  let ?env = "rejecting Version unreachable"
  have v: "rejected (getCode ?env) = Some unreachable"
    and p: "list_call ?env Pods = Fulfilled (WithBody (Some \<lparr> list_items = Some [] \<rparr>))"
    by (simp_all add: rejecting_def rejected_def)
  from p have e: "primary_empty ?env (Coll Pods)"
    by (simp add: primary_empty_def primary_items_def listResp_def toOk_def unwrap_def items_or_empty_def)
  have "pickSettledError [rejected (getCode ?env), rejected (list_call ?env Nodes)] = Some unreachable"
    by (simp add: v)
  from buildSummary_aborts [OF rejecting_client this, of False]
  have "fallback_call (Coll Pods) \<notin> set (snd (buildSummary ?env None False))"
    by (simp add: fallback_call_not_api del: set_map)
  with v p e show ?thesis by simp
qed

text \<open>
  C3, amended. In a run that passes the critical-path check (client set resolved, version
  and node call not rejected), for every kind the fallback (\<^verbatim>\<open>kubectl\<close> with the arguments
  of the kind) is spawned if and only if the primary result of the kind is empty: no
  version object, or an empty item list, which is also what a rejected call leaves. A
  fallback that fails is swallowed: the run still returns a summary, in which the kind
  is empty. In a run that the check aborts, no fallback is spawned for any kind.
\<close>

theorem fallback_policy:
  assumes "makeClientForContext env contextName = Inr kc"
  shows "(rejected (getCode env) = None \<and> rejected (list_call env Nodes) = None \<longrightarrow>
            (\<forall>k. fallback_call k \<in> set (snd (buildSummary env contextName detail))
                   \<longleftrightarrow> primary_empty env k)
          \<and> (\<exists>s. fst (buildSummary env contextName detail) = Inr s
                \<and> summary_version s = retrieved_version env
                \<and> (\<forall>c. collection_count s c = int (length (retrieved env c))))
          \<and> (\<forall>c. primary_empty env (Coll c) \<and> kubectl_fails env (Coll c) \<longrightarrow> retrieved env c = [])
          \<and> (primary_empty env Version \<and> kubectl_fails env Version \<longrightarrow> retrieved_version env = None))
     \<and> (rejected (getCode env) \<noteq> None \<or> rejected (list_call env Nodes) \<noteq> None \<longrightarrow>
            (\<forall>k. fallback_call k \<notin> set (snd (buildSummary env contextName detail))))
     \<and> (\<forall>c r. list_call env c = Rejected r \<longrightarrow> primary_empty env (Coll c))"
proof -
  have pass: "(\<forall>k. fallback_call k \<in> set (snd (buildSummary env contextName detail))
                   \<longleftrightarrow> primary_empty env k)
          \<and> (\<exists>s. fst (buildSummary env contextName detail) = Inr s
                \<and> summary_version s = retrieved_version env
                \<and> (\<forall>c. collection_count s c = int (length (retrieved env c))))"
    if ok: "rejected (getCode env) = None" "rejected (list_call env Nodes) = None"
    using buildSummary_passes [OF assms ok, of detail] fallback_call_not_api [of _ all_kinds]
    by (simp add: fallback_trace_iff collection_count_make summary_version_make del: set_map)
  have swallowed: "\<forall>c. primary_empty env (Coll c) \<and> kubectl_fails env (Coll c) \<longrightarrow> retrieved env c = []"
    by (simp add: primary_empty_def retrieved_failed)
  have swallowed_version:
    "primary_empty env Version \<and> kubectl_fails env Version \<longrightarrow> retrieved_version env = None"
    by (simp add: primary_empty_def retrieved_version_failed)
  have abort: "\<forall>k. fallback_call k \<notin> set (snd (buildSummary env contextName detail))"
    if "rejected (getCode env) \<noteq> None \<or> rejected (list_call env Nodes) \<noteq> None"
  proof -
    from that have
      "\<exists>e. pickSettledError [rejected (getCode env), rejected (list_call env Nodes)] = Some e"
      by (cases "rejected (getCode env)"; cases "rejected (list_call env Nodes)") simp_all
    then obtain e where
      "pickSettledError [rejected (getCode env), rejected (list_call env Nodes)] = Some e" ..
    from buildSummary_aborts [OF assms this, of detail] show ?thesis
      by (simp add: fallback_call_not_api del: set_map)
  qed
  have "\<forall>c r. list_call env c = Rejected r \<longrightarrow> primary_empty env (Coll c)"
    by (simp add: primary_empty_def rejected_primary_empty)
  with pass swallowed swallowed_version abort show ?thesis by blast
qed

theorem fallback_policy_witness:
  "fallback_call (Coll Nodes) \<in> set (snd (buildSummary (sample_env (only Pods [in_namespace ''prod''])) None False))
   \<and> fallback_call (Coll Pods) \<notin> set (snd (buildSummary (sample_env (only Pods [in_namespace ''prod''])) None False))
   \<and> fallback_call Version \<notin> set (snd (buildSummary (sample_env (only Pods [in_namespace ''prod''])) None False))
   \<and> retrieved (sample_env (only Pods [in_namespace ''prod''])) Nodes = []"
proof -
  let ?env = "sample_env (only Pods [in_namespace ''prod''])"
  have ok: "rejected (getCode ?env) = None \<and> rejected (list_call ?env Nodes) = None"
    by (simp add: rejected_def sample_env_def)
  have nodes: "primary_empty ?env (Coll Nodes)" and pods: "\<not> primary_empty ?env (Coll Pods)"
    and ver: "\<not> primary_empty ?env Version"
    by (simp_all add: primary_empty_def primary_items_def primary_version_def versionResp_def
          listResp_def toOk_def unwrap_def items_or_empty_def sample_env_def only_def)
  have fails: "kubectl_fails ?env (Coll Nodes)"
    by (simp add: kubectl_fails_def execJson_def sample_env_def Let_def)
  note r = fallback_policy [OF sample_env_client, of "only Pods [in_namespace ''prod'']" False,
      THEN conjunct1, rule_format, OF ok]
  from r [THEN conjunct1] nodes pods ver
  have "fallback_call (Coll Nodes) \<in> set (snd (buildSummary ?env None False))"
    and "fallback_call (Coll Pods) \<notin> set (snd (buildSummary ?env None False))"
    and "fallback_call Version \<notin> set (snd (buildSummary ?env None False))"
    by blast+
  moreover from r [THEN conjunct2, THEN conjunct2, THEN conjunct1] nodes fails
  have "retrieved ?env Nodes = []" by blast
  ultimately show ?thesis by blast
qed

subsection \<open>Array-index keys\<close>

lemma digit_value_inj: "digit_value c = Some d \<Longrightarrow> digit_value c' = Some d \<Longrightarrow> c = c'"
  by (auto simp: digit_value_def split: if_splits)

lemma digit_value_range: "digit_value c = Some d \<Longrightarrow> 0 \<le> d \<and> d < 10"
  by (auto simp: digit_value_def split: if_splits)

lemma digit_value_zero: "digit_value c = Some 0 \<Longrightarrow> c = CHR ''0''"
  by (auto simp: digit_value_def split: if_splits)

lemma decimal_value_snoc:
  "decimal_value acc (cs @ [c]) =
     (case decimal_value acc cs of
        None \<Rightarrow> None
      | Some v \<Rightarrow> (case digit_value c of None \<Rightarrow> None | Some d \<Rightarrow> Some (10 * v + d)))"
  by (induction cs arbitrary: acc) (auto split: option.splits)

lemma decimal_value_nonneg: "decimal_value acc cs = Some v \<Longrightarrow> 0 \<le> acc \<Longrightarrow> acc \<le> v"
proof (induction cs arbitrary: acc)
  case Nil
  then show ?case by simp
next
  case (Cons c cs)
  then obtain d where d: "digit_value c = Some d" and v: "decimal_value (10 * acc + d) cs = Some v"
    by (auto split: option.splits)
  from digit_value_range [OF d] Cons.prems(2) have "0 \<le> 10 * acc + d" by simp
  from Cons.IH [OF v this] digit_value_range [OF d] Cons.prems(2) show ?case by simp
qed

lemma decimal_value_positive:
  assumes "decimal_value 0 cs = Some v" and "cs \<noteq> []" and "hd cs \<noteq> CHR ''0''"
  shows "0 < v"
proof -
  from assms(2) obtain c cs' where cs: "cs = c # cs'" by (cases cs) auto
  with assms(1) obtain d where d: "digit_value c = Some d" and v: "decimal_value d cs' = Some v"
    by (auto split: option.splits)
  from d assms(3) cs have "d \<noteq> 0" using digit_value_zero by auto
  with digit_value_range [OF d] have "0 < d" by simp
  with decimal_value_nonneg [OF v] show ?thesis by simp
qed

lemma decimal_value_inj:
  assumes "decimal_value 0 s = Some v" and "decimal_value 0 t = Some v"
    and "s = [] \<or> hd s \<noteq> CHR ''0''" and "t = [] \<or> hd t \<noteq> CHR ''0''"
  shows "s = t"
  using assms
proof (induction s arbitrary: t v rule: rev_induct)
  case Nil
  then have "v = 0" by simp
  with Nil.prems(2,4) decimal_value_positive [of t v] show ?case by (cases "t = []") auto
next
  case (snoc c s)
  from snoc.prems(1) obtain w d where
    w: "decimal_value 0 s = Some w" and d: "digit_value c = Some d" and v: "v = 10 * w + d"
    by (auto simp: decimal_value_snoc split: option.splits)
  have "hd (s @ [c]) \<noteq> CHR ''0''" using snoc.prems(3) by simp
  from decimal_value_positive [OF snoc.prems(1) _ this] have vpos: "0 < v" by simp
  have "t \<noteq> []" using snoc.prems(2) vpos by auto
  then obtain t' c' where t: "t = t' @ [c']" by (cases t rule: rev_cases) auto
  from snoc.prems(2) t obtain w' d' where
    w': "decimal_value 0 t' = Some w'" and d': "digit_value c' = Some d'" and v': "v = 10 * w' + d'"
    by (auto simp: decimal_value_snoc split: option.splits)
  from v v' digit_value_range [OF d] digit_value_range [OF d'] have eq: "w = w'" "d = d'"
    by presburger+
  from d d' eq have cc: "c = c'" using digit_value_inj by blast
  have hs: "s = [] \<or> hd s \<noteq> CHR ''0''" using snoc.prems(3) by (cases s) auto
  have ht: "t' = [] \<or> hd t' \<noteq> CHR ''0''" using snoc.prems(4) t by (cases t') auto
  from snoc.IH [OF w _ hs ht] w' eq have "s = t'" by simp
  with cc t show ?case by simp
qed

lemma array_index_inj:
  assumes "array_index a = Some i" and "array_index b = Some i"
  shows "a = b"
proof -
  from assms have va: "decimal_value 0 a = Some i" and vb: "decimal_value 0 b = Some i"
    and ca: "a \<noteq> []" "hd a \<noteq> CHR ''0'' \<or> a = ''0''"
    and cb: "b \<noteq> []" "hd b \<noteq> CHR ''0'' \<or> b = ''0''"
    by (auto simp: array_index_def split: if_splits option.splits)
  show ?thesis
  proof (cases "i = 0")
    case True
    with va ca decimal_value_positive [of a i] have "a = ''0''" by auto
    moreover from True vb cb decimal_value_positive [of b i] have "b = ''0''" by auto
    ultimately show ?thesis by simp
  next
    case False
    have "decimal_value 0 ''0'' = Some 0" by (simp add: digit_value_def)
    with False va vb have "a \<noteq> ''0''" "b \<noteq> ''0''" by auto
    with ca cb have "hd a \<noteq> CHR ''0''" "hd b \<noteq> CHR ''0''" by auto
    with va vb show ?thesis by (intro decimal_value_inj [of a i b]) auto
  qed
qed

subsection \<open>The tally object\<close>

lemma first_position_less: "a \<in> set names \<Longrightarrow> first_position names a < length names"
  unfolding first_position_def
  by (induction names) auto

lemma first_position_append:
  "a \<in> set names \<Longrightarrow> first_position (names @ later) a = first_position names a"
  unfolding first_position_def
  by (induction names) auto

lemma first_position_new:
  "a \<notin> set names \<Longrightarrow> first_position (names @ [a]) a = length names"
  unfolding first_position_def
  by (induction names) auto

lemma enumerated_before_append:
  "a \<in> set names \<Longrightarrow> b \<in> set names \<Longrightarrow>
     enumerated_before (names @ later) a b = enumerated_before names a b"
  by (auto simp: enumerated_before_def first_position_append split: option.splits)

lemma sorted_wrt_enumerated_append:
  assumes "sorted_wrt (enumerated_before names) ks" and "set ks \<subseteq> set names"
  shows "sorted_wrt (enumerated_before (names @ later)) ks"
proof (rule sorted_wrt_mono_rel [OF _ assms(1)])
  fix a b assume ab: "a \<in> set ks" "b \<in> set ks" and before: "enumerated_before names a b"
  from ab assms(2) have "a \<in> set names" "b \<in> set names" by auto
  with before show "enumerated_before (names @ later) a b"
    by (simp add: enumerated_before_append)
qed

lemma insert_indexed_keys:
  "fst ` set (insert_indexed i k v obj) = insert k (fst ` set obj)"
proof (induction obj)
  case Nil
  then show ?case by simp
next
  case (Cons e obj)
  obtain k' v' where e: "e = (k', v')" by (cases e)
  show ?case
  proof (cases "array_index k'")
    case None
    with e show ?thesis by simp
  next
    case (Some j)
    with e Cons.IH show ?thesis by (cases "j < i") auto
  qed
qed

lemma insert_indexed_distinct:
  "distinct (map fst obj) \<Longrightarrow> k \<notin> fst ` set obj \<Longrightarrow>
     distinct (map fst (insert_indexed i k v obj))"
proof (induction obj)
  case Nil
  then show ?case by simp
next
  case (Cons e obj)
  obtain k' v' where e: "e = (k', v')" by (cases e)
  show ?case
  proof (cases "array_index k'")
    case None
    with e Cons.prems show ?thesis by simp
  next
    case (Some j)
    with e Cons show ?thesis
      by (cases "j < i") (auto simp: insert_indexed_keys)
  qed
qed

lemma insert_indexed_map_of:
  "k \<notin> fst ` set obj \<Longrightarrow> map_of (insert_indexed i k v obj) = (map_of obj)(k \<mapsto> v)"
proof (induction obj)
  case Nil
  then show ?case by simp
next
  case (Cons e obj)
  obtain k' v' where e: "e = (k', v')" by (cases e)
  with Cons.prems have "k \<noteq> k'" "k \<notin> fst ` set obj" by auto
  with Cons.IH e show ?case
    by (cases "array_index k'") (auto simp: fun_upd_twist)
qed

lemma insert_indexed_sorted:
  assumes "sorted_wrt (enumerated_before names) (map fst obj)"
    and "array_index k = Some i" and "k \<notin> fst ` set obj"
  shows "sorted_wrt (enumerated_before names) (map fst (insert_indexed i k v obj))"
  using assms
proof (induction obj)
  case Nil
  then show ?case by simp
next
  case (Cons e obj)
  obtain k' v' where e: "e = (k', v')" by (cases e)
  from Cons.prems(1) e have tail: "sorted_wrt (enumerated_before names) (map fst obj)"
    and head: "\<forall>y \<in> fst ` set obj. enumerated_before names k' y"
    by simp_all
  from Cons.prems(3) e have kk': "k \<noteq> k'" and knew: "k \<notin> fst ` set obj" by auto
  show ?case
  proof (cases "array_index k'")
    case None
    then have "\<forall>y \<in> fst ` set obj. array_index y = None"
      using head by (auto simp: enumerated_before_def split: option.splits)
    with None have "\<forall>y \<in> fst ` set (e # obj). enumerated_before names k y"
      using Cons.prems(2) e by (auto simp: enumerated_before_def)
    with None Cons.prems(1) e show ?thesis by simp
  next
    case (Some j)
    show ?thesis
    proof (cases "j < i")
      case True
      have "enumerated_before names k' k"
        using Some True Cons.prems(2) by (simp add: enumerated_before_def)
      with head have "\<forall>y \<in> fst ` set (insert_indexed i k v obj). enumerated_before names k' y"
        unfolding insert_indexed_keys by simp
      with Cons.IH [OF tail Cons.prems(2) knew] Some True e show ?thesis by simp
    next
      case False
      have "j \<noteq> i" using array_index_inj [of k i k'] Some Cons.prems(2) kk' by auto
      with False have ij: "i < j" by simp
      have "enumerated_before names k y" if "y \<in> fst ` set obj" for y
        using head that Some ij Cons.prems(2)
        by (auto simp: enumerated_before_def split: option.splits)
      moreover have "enumerated_before names k k'"
        using Some ij Cons.prems(2) by (simp add: enumerated_before_def)
      ultimately show ?thesis using Some False Cons.prems(1) e by simp
    qed
  qed
qed

lemma update_existing_keys:
  "map fst (map (\<lambda>(k', v'). if k' = k then (k', v) else (k', v')) obj) = map fst obj"
  by (induction obj) auto

lemma update_existing_map_of:
  "map_of (map (\<lambda>(k', v'). if k' = k then (k', v) else (k', v')) obj) x =
     (if x = k then (if k \<in> fst ` set obj then Some v else None) else map_of obj x)"
  by (induction obj) (force simp: image_iff)+

lemma set_property_existing:
  assumes "k \<noteq> ''__proto__''" and "k \<in> fst ` set obj"
  shows "map fst (set_property k v obj) = map fst obj"
    and "map_of (set_property k v obj) = (map_of obj)(k \<mapsto> v)"
proof -
  from assms show "map fst (set_property k v obj) = map fst obj"
    by (simp only: set_property_def update_existing_keys if_True if_False)
  from assms show "map_of (set_property k v obj) = (map_of obj)(k \<mapsto> v)"
    by (auto simp: set_property_def update_existing_map_of fun_eq_iff)
qed

lemma set_property_new_map_of:
  assumes "k \<noteq> ''__proto__''" and "k \<notin> fst ` set obj"
  shows "map_of (set_property k v obj) = (map_of obj)(k \<mapsto> v)"
proof (cases "array_index k")
  case None
  from assms(2) have "map_of obj k = None" by (simp add: map_of_eq_None_iff)
  with None assms show ?thesis
    by (auto simp: set_property_def map_add_def fun_eq_iff split: option.splits)
next
  case (Some i)
  with assms show ?thesis
    by (simp add: set_property_def insert_indexed_map_of)
qed

lemma set_property_new_keys:
  assumes "k \<noteq> ''__proto__''" and "k \<notin> fst ` set obj" and "distinct (map fst obj)"
  shows "fst ` set (set_property k v obj) = insert k (fst ` set obj)"
    and "distinct (map fst (set_property k v obj))"
proof -
  show "fst ` set (set_property k v obj) = insert k (fst ` set obj)"
    using assms(1,2) by (cases "array_index k") (simp_all add: set_property_def insert_indexed_keys)
  show "distinct (map fst (set_property k v obj))"
    using assms by (cases "array_index k") (simp_all add: set_property_def insert_indexed_distinct)
qed

lemma set_property_new_sorted:
  assumes "k \<noteq> ''__proto__''" and "k \<notin> set names"
    and "fst ` set obj = set names"
    and "sorted_wrt (enumerated_before names) (map fst obj)"
  shows "sorted_wrt (enumerated_before (names @ [k])) (map fst (set_property k v obj))"
proof -
  from assms(3,4) have ext: "sorted_wrt (enumerated_before (names @ [k])) (map fst obj)"
    by (intro sorted_wrt_enumerated_append) simp_all
  from assms(2,3) have new: "k \<notin> fst ` set obj" by simp
  show ?thesis
  proof (cases "array_index k")
    case None
    have "enumerated_before (names @ [k]) a k" if "a \<in> set names" for a
      using that None assms(2) first_position_less [of a names]
      by (auto simp: enumerated_before_def first_position_append first_position_new
            split: option.splits)
    with ext assms(3) have "sorted_wrt (enumerated_before (names @ [k])) (map fst obj @ [k])"
      by (simp add: sorted_wrt_append)
    with None assms(1) new show ?thesis by (simp add: set_property_def)
  next
    case (Some i)
    from insert_indexed_sorted [OF ext Some new] Some assms(1) new show ?thesis
      by (simp add: set_property_def)
  qed
qed

lemma prototype_text_proto: "prototype_text k = None \<Longrightarrow> k \<noteq> ''__proto__''"
  by (auto simp: prototype_text_def)

lemma tallied_step:
  assumes "tallied names obj" and "prototype_text k = None"
  shows "tallied (names @ [k]) (set_property k (increment obj k) obj)"
proof -
  from assms(1) have dist: "distinct (map fst obj)" and keys: "fst ` set obj = set names"
    and sorted: "sorted_wrt (enumerated_before names) (map fst obj)"
    and counts: "\<forall>k \<in> set names. map_of obj k = Some (Num (int (count_list names k)))"
    by (simp_all add: tallied_def)
  note proto = prototype_text_proto [OF assms(2)]
  let ?obj = "set_property k (increment obj k) obj"
  show ?thesis
  proof (cases "k \<in> set names")
    case True
    with counts have old: "map_of obj k = Some (Num (int (count_list names k)))" by simp
    from True have "count_list names k \<noteq> 0" by (simp add: count_list_0_iff)
    with old have inc: "increment obj k = Num (int (count_list names k) + 1)"
      by (simp add: increment_def)
    from True keys have k: "k \<in> fst ` set obj" by simp
    note upd = set_property_existing [OF proto k]
    have "fst ` set ?obj = set (map fst ?obj)" by simp
    also have "\<dots> = set (names @ [k])" using keys True by (simp only: upd) auto
    finally have 1: "fst ` set ?obj = set (names @ [k])" .
    have 2: "sorted_wrt (enumerated_before (names @ [k])) (map fst ?obj)"
      unfolding upd using sorted keys by (intro sorted_wrt_enumerated_append) simp_all
    have 3: "\<forall>k' \<in> set (names @ [k]).
        map_of ?obj k' = Some (Num (int (count_list (names @ [k]) k')))"
      using counts True by (auto simp: upd(2) inc)
    from dist 1 2 3 show ?thesis
      unfolding tallied_def upd(1) by blast
  next
    case False
    with keys have new: "k \<notin> fst ` set obj" by simp
    then have "map_of obj k = None" by (simp add: map_of_eq_None_iff)
    with assms(2) have inc: "increment obj k = Num 1" by (simp add: increment_def)
    note m = set_property_new_map_of [OF proto new]
    note ks = set_property_new_keys [OF proto new dist]
    note so = set_property_new_sorted [OF proto False keys sorted]
    have 1: "fst ` set ?obj = set (names @ [k])" using ks(1) keys by simp
    have 3: "\<forall>k' \<in> set (names @ [k]).
        map_of ?obj k' = Some (Num (int (count_list (names @ [k]) k')))"
      using counts False by (auto simp: m inc)
    from ks(2) 1 so 3 show ?thesis
      unfolding tallied_def by blast
  qed
qed

lemma tally_pods_snoc: "tally_pods (pods @ [p]) = tally_pod p (tally_pods pods)"
  by (simp add: tally_pods_def)

lemma tallied_tally_pods:
  "plain_namespaces pods \<Longrightarrow> tallied (map pod_ns pods) (tally_pods pods)"
proof (induction pods rule: rev_induct)
  case Nil
  then show ?case by (simp add: tallied_def tally_pods_def)
next
  case (snoc p pods)
  then have "tallied (map pod_ns pods) (tally_pods pods)" and "prototype_text (pod_ns p) = None"
    by (simp_all add: plain_namespaces_def)
  from tallied_step [OF this] show ?case
    by (simp add: tally_pods_snoc tally_pod_def Let_def)
qed

subsection \<open>Sorting the tally\<close>

lemma sort_insert_set: "set (sort_insert cmp x ys) = insert x (set ys)"
  by (induction ys) auto

lemma array_sort_set: "set (array_sort cmp xs) = set xs"
  by (induction xs) (simp_all add: sort_insert_set)

lemma sort_insert_distinct:
  "distinct (map f (sort_insert cmp x ys)) \<longleftrightarrow> f x \<notin> f ` set ys \<and> distinct (map f ys)"
  by (induction ys) (auto simp: sort_insert_set)

lemma array_sort_distinct: "distinct (map f (array_sort cmp xs)) \<longleftrightarrow> distinct (map f xs)"
  by (induction xs) (simp_all add: sort_insert_distinct array_sort_set)

lemma sort_insert_by_pods:
  assumes "snd x = Num m"
    and "\<forall>y \<in> set ys. \<exists>n. snd y = Num n"
    and "sorted_wrt (\<lambda>a b. \<exists>p q. snd a = Num p \<and> snd b = Num q \<and> q \<le> p \<and> (p = q \<longrightarrow> R (fst a) (fst b))) ys"
    and "\<forall>y \<in> set ys. R (fst x) (fst y)"
  shows "sorted_wrt (\<lambda>a b. \<exists>p q. snd a = Num p \<and> snd b = Num q \<and> q \<le> p \<and> (p = q \<longrightarrow> R (fst a) (fst b)))
           (sort_insert by_pods_desc x ys)"
  using assms(2-)
proof (induction ys)
  case Nil
  then show ?case by simp
next
  case (Cons y ys)
  from Cons.prems(1) obtain n where n: "snd y = Num n" by auto
  have cmp: "by_pods_desc x y = Some (n - m)"
    by (simp add: by_pods_desc_def assms(1) n)
  show ?case
  proof (cases "n \<le> m")
    case True
    have "\<exists>p q. snd x = Num p \<and> snd z = Num q \<and> q \<le> p \<and> (p = q \<longrightarrow> R (fst x) (fst z))"
      if "z \<in> set (y # ys)" for z
    proof (cases "z = y")
      case True
      with \<open>n \<le> m\<close> n assms(1) Cons.prems(3) show ?thesis by simp
    next
      case False
      with that have z: "z \<in> set ys" by simp
      with Cons.prems(2) n obtain q where "snd z = Num q" "q \<le> n" by auto
      with \<open>n \<le> m\<close> assms(1) Cons.prems(3) z show ?thesis by simp
    qed
    with Cons.prems(2) cmp True show ?thesis by simp
  next
    case False
    have ih: "sorted_wrt (\<lambda>a b. \<exists>p q. snd a = Num p \<and> snd b = Num q \<and> q \<le> p \<and> (p = q \<longrightarrow> R (fst a) (fst b)))
           (sort_insert by_pods_desc x ys)"
      using Cons.prems by (intro Cons.IH) simp_all
    have "\<exists>p q. snd y = Num p \<and> snd z = Num q \<and> q \<le> p \<and> (p = q \<longrightarrow> R (fst y) (fst z))"
      if "z \<in> set (sort_insert by_pods_desc x ys)" for z
      using that Cons.prems(2) False n assms(1) by (auto simp: sort_insert_set)
    with ih cmp False show ?thesis by simp
  qed
qed

lemma array_sort_by_pods:
  assumes "\<forall>y \<in> set xs. \<exists>n. snd y = Num n"
    and "sorted_wrt (\<lambda>a b. R (fst a) (fst b)) xs"
  shows "sorted_wrt (\<lambda>a b. \<exists>p q. snd a = Num p \<and> snd b = Num q \<and> q \<le> p \<and> (p = q \<longrightarrow> R (fst a) (fst b)))
           (array_sort by_pods_desc xs)"
  using assms
proof (induction xs)
  case Nil
  then show ?case by simp
next
  case (Cons x xs)
  from Cons.prems(1) obtain m where m: "snd x = Num m" by auto
  have "sorted_wrt (\<lambda>a b. \<exists>p q. snd a = Num p \<and> snd b = Num q \<and> q \<le> p \<and> (p = q \<longrightarrow> R (fst a) (fst b)))
           (sort_insert by_pods_desc x (array_sort by_pods_desc xs))"
    using Cons.prems Cons.IH
    by (intro sort_insert_by_pods [OF m]) (simp_all add: array_sort_set)
  then show ?case by simp
qed

lemma topByPods_of_eq:
  "topByPods_of pods = take 10 (array_sort by_pods_desc (tally_pods pods))"
  by (simp add: topByPods_of_def)

lemma topByPods_of_length: "length (topByPods_of pods) \<le> 10"
  by (simp add: topByPods_of_eq)

lemma tallied_entry:
  assumes "tallied names obj" and "e \<in> set obj"
  shows "snd e = Num (int (count_list names (fst e)))" and "fst e \<in> set names"
proof -
  from assms(1) have dist: "distinct (map fst obj)" and keys: "fst ` set obj = set names"
    and counts: "\<forall>k \<in> set names. map_of obj k = Some (Num (int (count_list names k)))"
    by (simp_all add: tallied_def)
  from assms(2) keys show k: "fst e \<in> set names" by auto
  from dist assms(2) have "map_of obj (fst e) = Some (snd e)" by simp
  with counts k show "snd e = Num (int (count_list names (fst e)))" by simp
qed

lemma topByPods_of_plain:
  assumes "plain_namespaces pods"
  shows "sorted_wrt (\<lambda>a b. \<exists>p q. snd a = Num p \<and> snd b = Num q \<and> q \<le> p
             \<and> (p = q \<longrightarrow> enumerated_before (map pod_ns pods) (fst a) (fst b)))
           (topByPods_of pods)"
    and "distinct (map fst (topByPods_of pods))"
    and "\<forall>e \<in> set (topByPods_of pods).
           fst e \<in> set (map pod_ns pods) \<and> snd e = Num (int (count_list (map pod_ns pods) (fst e)))"
proof -
  note t = tallied_tally_pods [OF assms]
  then have sorted: "sorted_wrt (\<lambda>a b. enumerated_before (map pod_ns pods) (fst a) (fst b)) (tally_pods pods)"
    and dist: "distinct (map fst (tally_pods pods))"
    by (simp_all add: tallied_def sorted_wrt_map)
  have nums: "\<forall>y \<in> set (tally_pods pods). \<exists>n. snd y = Num n"
    using tallied_entry(1) [OF t] by blast
  from array_sort_by_pods [OF nums sorted]
  show "sorted_wrt (\<lambda>a b. \<exists>p q. snd a = Num p \<and> snd b = Num q \<and> q \<le> p
             \<and> (p = q \<longrightarrow> enumerated_before (map pod_ns pods) (fst a) (fst b)))
           (topByPods_of pods)"
    unfolding topByPods_of_eq by (rule sorted_wrt_take)
  from dist show "distinct (map fst (topByPods_of pods))"
    by (simp add: topByPods_of_eq array_sort_distinct take_map [symmetric] del: take_map)
  show "\<forall>e \<in> set (topByPods_of pods).
           fst e \<in> set (map pod_ns pods) \<and> snd e = Num (int (count_list (map pod_ns pods) (fst e)))"
  proof
    fix e assume "e \<in> set (topByPods_of pods)"
    then have "e \<in> set (tally_pods pods)"
      unfolding topByPods_of_eq using array_sort_set [of by_pods_desc "tally_pods pods"]
      by (auto dest: in_set_takeD)
    with tallied_entry [OF t] show
      "fst e \<in> set (map pod_ns pods) \<and> snd e = Num (int (count_list (map pod_ns pods) (fst e)))"
      by blast
  qed
qed

lemma summary_topByPods:
  "topByPods (summary_namespaces (make_summary kc ver final detail)) = topByPods_of (final Pods)"
  by (simp add: make_summary_def Let_def)

lemma summary_workloads_pods:
  "workloads_pods (summary_workloads (make_summary kc ver final detail)) = int (length (final Pods))"
  by (simp add: make_summary_def Let_def)

subsection \<open>Top namespaces by pods\<close>

lemmas tally_eval =
  topByPods_of_def tally_pods_def tally_pod_def pod_ns_def in_namespace_def
  metadata_namespace_def or_default_def increment_def prototype_text_def function_text_def
  set_property_def array_index_def digit_value_def by_pods_desc_def

text \<open>
  C5 as stated fails on the ties: two pods, the first in namespace \<^verbatim>\<open>b\<close>, the second in
  namespace \<^verbatim>\<open>1\<close>. Both namespaces hold one pod, \<^verbatim>\<open>b\<close> was encountered first, and
  \<^verbatim>\<open>1\<close> ranks higher: \<^verbatim>\<open>Object.entries\<close> enumerates an array-index key ahead of the
  other keys.
\<close>

theorem topByPods_order_counterexample:
  "map pod_ns (retrieved (sample_env (only Pods [in_namespace ''b'', in_namespace ''1''])) Pods) = [''b'', ''1'']
   \<and> topByPods (summary_namespaces (projr (fst (buildSummary
        (sample_env (only Pods [in_namespace ''b'', in_namespace ''1''])) None False))))
       = [(''1'', Num 1), (''b'', Num 1)]"
proof -
  have "topByPods_of [in_namespace ''b'', in_namespace ''1''] = [(''1'', Num 1), (''b'', Num 1)]"
    by (simp add: tally_eval)
  moreover have "map pod_ns [in_namespace ''b'', in_namespace ''1''] = [''b'', ''1'']"
    by (simp add: pod_ns_def in_namespace_def metadata_namespace_def or_default_def)
  ultimately show ?thesis
    by (simp add: sample_env_runs sample_env_retrieved summary_topByPods only_def)
qed

text \<open>
  C5, amended. In every summary returned, \<open>topByPods\<close> has at most 10 entries. When no
  pod's namespace is named like a property of \<^verbatim>\<open>Object.prototype\<close>, every entry holds a
  namespace of a retrieved pod with the number of retrieved pods in it, the entries are
  in descending order of that number, and of two namespaces with equal numbers the one
  enumerated first by \<^verbatim>\<open>Object.entries\<close> ranks higher: namespaces whose names are array
  indices come first, in ascending numeric order, and the other namespaces follow in the
  order in which their first pod was encountered.
\<close>

theorem topByPods_order:
  assumes "fst (buildSummary env contextName detail) = Inr s"
  shows "length (topByPods (summary_namespaces s)) \<le> 10
     \<and> (plain_namespaces (retrieved env Pods) \<longrightarrow>
          (\<forall>i < length (topByPods (summary_namespaces s)).
              fst (topByPods (summary_namespaces s) ! i) \<in> set (map pod_ns (retrieved env Pods))
              \<and> snd (topByPods (summary_namespaces s) ! i) =
                  Num (int (count_list (map pod_ns (retrieved env Pods))
                                       (fst (topByPods (summary_namespaces s) ! i)))))
          \<and> (\<forall>i j. i < j \<and> j < length (topByPods (summary_namespaces s)) \<longrightarrow>
                (\<exists>m n. snd (topByPods (summary_namespaces s) ! i) = Num m
                   \<and> snd (topByPods (summary_namespaces s) ! j) = Num n
                   \<and> n \<le> m
                   \<and> (m = n \<longrightarrow>
                        enumerated_before (map pod_ns (retrieved env Pods))
                          (fst (topByPods (summary_namespaces s) ! i))
                          (fst (topByPods (summary_namespaces s) ! j))))))"
proof -
  from buildSummary_success [OF assms] obtain kc where
    s: "s = make_summary kc (retrieved_version env) (retrieved env) detail" by blast
  have top: "topByPods (summary_namespaces s) = topByPods_of (retrieved env Pods)"
    by (simp add: s summary_topByPods)
  have len: "length (topByPods (summary_namespaces s)) \<le> 10"
    by (simp add: top topByPods_of_length)
  have plain: "(\<forall>i < length (topByPods_of pods).
              fst (topByPods_of pods ! i) \<in> set (map pod_ns pods)
              \<and> snd (topByPods_of pods ! i) =
                  Num (int (count_list (map pod_ns pods) (fst (topByPods_of pods ! i)))))
          \<and> (\<forall>i j. i < j \<and> j < length (topByPods_of pods) \<longrightarrow>
                (\<exists>m n. snd (topByPods_of pods ! i) = Num m
                   \<and> snd (topByPods_of pods ! j) = Num n
                   \<and> n \<le> m
                   \<and> (m = n \<longrightarrow>
                        enumerated_before (map pod_ns pods)
                          (fst (topByPods_of pods ! i)) (fst (topByPods_of pods ! j)))))"
    if "plain_namespaces pods" for pods
  proof -
    note p = topByPods_of_plain [OF that]
    from p(3) have "\<forall>i < length (topByPods_of pods).
              fst (topByPods_of pods ! i) \<in> set (map pod_ns pods)
              \<and> snd (topByPods_of pods ! i) =
                  Num (int (count_list (map pod_ns pods) (fst (topByPods_of pods ! i))))"
      by (metis nth_mem)
    moreover from p(1) have "\<forall>i j. i < j \<and> j < length (topByPods_of pods) \<longrightarrow>
                (\<exists>m n. snd (topByPods_of pods ! i) = Num m
                   \<and> snd (topByPods_of pods ! j) = Num n
                   \<and> n \<le> m
                   \<and> (m = n \<longrightarrow>
                        enumerated_before (map pod_ns pods)
                          (fst (topByPods_of pods ! i)) (fst (topByPods_of pods ! j))))"
      unfolding sorted_wrt_iff_nth_less by blast
    ultimately show ?thesis by blast
  qed
  from len plain [of "retrieved env Pods"] show ?thesis
    unfolding top by blast
qed

theorem topByPods_order_witness:
  "\<exists>m n. snd (topByPods (summary_namespaces (projr (fst (buildSummary
        (sample_env (only Pods [in_namespace ''a'', in_namespace ''b'', in_namespace ''b''])) None False)))) ! 0) = Num m
     \<and> snd (topByPods (summary_namespaces (projr (fst (buildSummary
        (sample_env (only Pods [in_namespace ''a'', in_namespace ''b'', in_namespace ''b''])) None False)))) ! 1) = Num n
     \<and> n \<le> m"
proof -
  let ?pods = "[in_namespace ''a'', in_namespace ''b'', in_namespace ''b'']"
  let ?env = "sample_env (only Pods ?pods)"
  let ?s = "projr (fst (buildSummary ?env None False))"
  have run: "fst (buildSummary ?env None False) = Inr ?s"
    by (simp add: sample_env_runs)
  have pods: "retrieved ?env Pods = ?pods"
    by (simp add: sample_env_retrieved only_def)
  have plain: "plain_namespaces (retrieved ?env Pods)"
    unfolding pods
    by (simp add: plain_namespaces_def pod_ns_def in_namespace_def metadata_namespace_def
          or_default_def prototype_text_def)
  have "topByPods (summary_namespaces ?s) = topByPods_of ?pods"
    by (simp add: sample_env_runs sample_env_retrieved summary_topByPods only_def)
  also have "\<dots> = [(''b'', Num 2), (''a'', Num 1)]"
    by (simp add: tally_eval)
  finally have len: "(0::nat) < 1 \<and> 1 < length (topByPods (summary_namespaces ?s))"
    by simp
  from topByPods_order [OF run, THEN conjunct2, rule_format, OF plain, THEN conjunct2, rule_format, OF len]
  show ?thesis by blast
qed

lemma sort_insert_sum: "sum_list (map f (sort_insert cmp x ys)) = f x + sum_list (map f ys)"
  for f :: "'a \<Rightarrow> int"
  by (induction ys) auto

lemma array_sort_sum: "sum_list (map f (array_sort cmp xs)) = sum_list (map f xs)"
  for f :: "'a \<Rightarrow> int"
  by (induction xs) (simp_all add: sort_insert_sum)

lemma take_sum_le:
  fixes f :: "'a \<Rightarrow> int"
  assumes "\<forall>x \<in> set xs. 0 \<le> f x"
  shows "sum_list (map f (take n xs)) \<le> sum_list (map f xs)"
proof -
  have "sum_list (map f xs) = sum_list (map f (take n xs)) + sum_list (map f (drop n xs))"
    by (metis append_take_drop_id map_append sum_list_append)
  moreover have "0 \<le> sum_list (map f (drop n xs))"
    using assms by (intro sum_list_nonneg) (auto dest: in_set_dropD)
  ultimately show ?thesis by simp
qed

lemma tallied_sum:
  assumes "tallied names obj"
  shows "sum_list (map (\<lambda>e. listed_pods (snd e)) obj) = int (length names)"
proof -
  from assms have dist: "distinct (map fst obj)" and keys: "fst ` set obj = set names"
    by (simp_all add: tallied_def)
  have pointwise: "listed_pods (snd e) = int (count_list names (fst e))" if "e \<in> set obj" for e
    using tallied_entry(1) [OF assms that] by (simp add: listed_pods_def)
  have "sum_list (map (\<lambda>e. listed_pods (snd e)) obj)
      = sum_list (map (\<lambda>e. int (count_list names (fst e))) obj)"
    by (rule arg_cong [where f = sum_list], rule map_cong [OF refl]) (rule pointwise)
  also have "\<dots> = sum_list (map (\<lambda>k. int (count_list names k)) (map fst obj))"
    by (simp add: comp_def)
  also have "\<dots> = (\<Sum>k \<in> set (map fst obj). int (count_list names k))"
    using dist by (rule sum_list_distinct_conv_sum_set)
  also have "\<dots> = int (\<Sum>k \<in> set names. count_list names k)"
    using keys by simp
  also have "\<dots> = int (length names)"
    by (simp add: sum_count_set)
  finally show ?thesis .
qed

text \<open>
  Where no pod's namespace is named like a property of \<^verbatim>\<open>Object.prototype\<close>, the tally
  is sound: the listed namespaces are pairwise distinct, every listed count is a number
  that is at least 1, and the listed counts sum to at most \<open>workloads.pods\<close>.
\<close>

lemma topByPods_counts_plain:
  assumes "fst (buildSummary env contextName detail) = Inr s"
    and "plain_namespaces (retrieved env Pods)"
  shows "distinct (map fst (topByPods (summary_namespaces s)))"
    and "\<forall>e \<in> set (topByPods (summary_namespaces s)). \<exists>n. snd e = Num n \<and> 1 \<le> n"
    and "sum_list (map (\<lambda>e. listed_pods (snd e)) (topByPods (summary_namespaces s)))
           \<le> workloads_pods (summary_workloads s)"
proof -
  let ?pods = "retrieved env Pods"
  from buildSummary_success [OF assms(1)] obtain kc where
    s: "s = make_summary kc (retrieved_version env) (retrieved env) detail" by blast
  have top: "topByPods (summary_namespaces s) = topByPods_of ?pods"
    by (simp add: s summary_topByPods)
  note p = topByPods_of_plain [OF assms(2)]
  note t = tallied_tally_pods [OF assms(2)]
  from p(2) show "distinct (map fst (topByPods (summary_namespaces s)))"
    by (simp add: top)
  show "\<forall>e \<in> set (topByPods (summary_namespaces s)). \<exists>n. snd e = Num n \<and> 1 \<le> n"
  proof
    fix e assume "e \<in> set (topByPods (summary_namespaces s))"
    with p(3) top have "fst e \<in> set (map pod_ns ?pods)"
      and "snd e = Num (int (count_list (map pod_ns ?pods) (fst e)))" by auto
    moreover from this(1) have "count_list (map pod_ns ?pods) (fst e) \<noteq> 0"
      by (simp only: count_list_0_iff) simp
    ultimately show "\<exists>n. snd e = Num n \<and> 1 \<le> n" by simp
  qed
  have nonneg: "\<forall>e \<in> set (array_sort by_pods_desc (tally_pods ?pods)). 0 \<le> listed_pods (snd e)"
    using tallied_entry(1) [OF t] by (simp add: array_sort_set listed_pods_def)
  have "sum_list (map (\<lambda>e. listed_pods (snd e)) (topByPods_of ?pods))
      \<le> sum_list (map (\<lambda>e. listed_pods (snd e)) (array_sort by_pods_desc (tally_pods ?pods)))"
    unfolding topByPods_of_eq using nonneg by (rule take_sum_le)
  also have "\<dots> = int (length ?pods)"
    using tallied_sum [OF t] by (simp add: array_sort_sum)
  finally show "sum_list (map (\<lambda>e. listed_pods (snd e)) (topByPods (summary_namespaces s)))
           \<le> workloads_pods (summary_workloads s)"
    unfolding top by (simp add: s summary_workloads_pods)
qed

text \<open>
  C10 fails on the code for a pod in the namespace \<^verbatim>\<open>constructor\<close> (a valid namespace
  name): \<^verbatim>\<open>podsByNs["constructor"]\<close> reads the function inherited from
  \<^verbatim>\<open>Object.prototype\<close>, \<^verbatim>\<open>|| 0\<close> keeps it, and \<^verbatim>\<open>+ 1\<close> makes a string of it. The listed pod
  count is that string, not a number that is at least 1, while \<open>workloads.pods\<close> is 1.
  (For pods in namespaces not named like a property of \<^verbatim>\<open>Object.prototype\<close> the
  statement holds, see \<open>topByPods_counts_plain\<close>.)
\<close>

theorem topByPods_constructor:
  "topByPods (summary_namespaces (projr (fst (buildSummary
      (sample_env (only Pods [in_namespace ''constructor''])) None False))))
     = [(''constructor'', Str ''function Object() { [native code] }1'')]
   \<and> workloads_pods (summary_workloads (projr (fst (buildSummary
      (sample_env (only Pods [in_namespace ''constructor''])) None False)))) = 1"
proof -
  have "topByPods_of [in_namespace ''constructor'']
      = [(''constructor'', Str ''function Object() { [native code] }1'')]"
    by (simp add: tally_eval)
  then show ?thesis
    by (simp add: sample_env_runs sample_env_retrieved summary_topByPods summary_workloads_pods only_def)
qed

subsection \<open>Decimal rendering\<close>

lemma digit_value_digit_char: "d < 10 \<Longrightarrow> digit_value (digit_char d) = Some (int d)"
proof -
  assume "d < 10"
  then have "d \<in> {0, 1, 2, 3, 4, 5, 6, 7, 8, 9}" by auto
  then show ?thesis
    by (auto simp: digit_value_def digit_char_def)
qed

text \<open>\<open>show_nat\<close> writes the decimal digits of a number: reading them back gives the number.\<close>

lemma decimal_value_show_nat: "decimal_value 0 (show_nat n) = Some (int n)"
proof (induction n rule: show_nat.induct)
  case (1 n)
  show ?case
  proof (cases "n < 10")
    case True
    then show ?thesis
      by (simp add: show_nat.simps [of n] digit_value_digit_char)
  next
    case False
    have "n mod 10 < 10" by simp
    moreover have "10 * int (n div 10) + int (n mod 10) = int n"
      by (simp add: zdiv_int zmod_int)
    ultimately show ?thesis using False "1.IH"
      by (simp add: show_nat.simps [of n] decimal_value_snoc digit_value_digit_char)
  qed
qed

end
